theory Spec2Isabelle
  imports Main "HOL-Library.Word" "HOL-Library.Sublist"
begin

section \<open>JavaScript strings\<close>

text \<open>
  A JavaScript string is a sequence of UTF-16 code units. The functions of
  \<^verbatim>\<open>text-processing.ts\<close> index, slice and measure strings by code unit, so a string is
  a list of 16-bit words. \<open>js\<close> turns an ASCII literal into such a list.
\<close>

type_synonym jschar = "16 word"
type_synonym jsstring = "jschar list"

definition js :: "string \<Rightarrow> jsstring" where
  "js s = map of_char s"

definition LF :: jschar where "LF = 0x0A"
definition TAB :: jschar where "TAB = 0x09"
definition SPACE :: jschar where "SPACE = 0x20"

text \<open>
  The characters that \<^verbatim>\<open>String.prototype.trim\<close>, \<^verbatim>\<open>trimEnd\<close> and the regular
  expression class \<^verbatim>\<open>\s\<close> treat as white space: the ECMAScript WhiteSpace and
  LineTerminator productions.
\<close>

definition isWhiteSpace :: "jschar \<Rightarrow> bool" where
  "isWhiteSpace c =
     (c = 0x09 \<or> c = 0x0A \<or> c = 0x0B \<or> c = 0x0C \<or> c = 0x0D \<or> c = 0x20 \<or> c = 0xA0
      \<or> c = 0x1680 \<or> (0x2000 \<le> c \<and> c \<le> 0x200A) \<or> c = 0x2028 \<or> c = 0x2029
      \<or> c = 0x202F \<or> c = 0x205F \<or> c = 0x3000 \<or> c = 0xFEFF)"

definition trimStart :: "jsstring \<Rightarrow> jsstring" where
  "trimStart s = dropWhile isWhiteSpace s"

definition trimEnd :: "jsstring \<Rightarrow> jsstring" where
  "trimEnd s = rev (dropWhile isWhiteSpace (rev s))"

definition trim :: "jsstring \<Rightarrow> jsstring" where
  "trim s = trimEnd (trimStart s)"

text \<open>\<^verbatim>\<open>s.startsWith(t)\<close> and \<^verbatim>\<open>s.endsWith(t)\<close>.\<close>

definition startsWith :: "'a list \<Rightarrow> 'a list \<Rightarrow> bool" where
  "startsWith s t = prefix t s"

definition endsWith :: "'a list \<Rightarrow> 'a list \<Rightarrow> bool" where
  "endsWith s t = suffix t s"

text \<open>\<^verbatim>\<open>s.includes(t)\<close>: \<open>t\<close> occurs somewhere in \<open>s\<close>.\<close>

fun includesStr :: "'a list \<Rightarrow> 'a list \<Rightarrow> bool" where
  "includesStr [] t = (t = [])"
| "includesStr (c # cs) t = (prefix t (c # cs) \<or> includesStr cs t)"

text \<open>
  \<^verbatim>\<open>s.indexOf(t)\<close> is the position of the first occurrence of \<open>t\<close> in \<open>s\<close>, and
  \<^verbatim>\<open>s.lastIndexOf(t)\<close> that of the last one; both are \<open>-1\<close> when there is none.
\<close>

fun indexOf :: "'a list \<Rightarrow> 'a list \<Rightarrow> int" where
  "indexOf [] t = (if t = [] then 0 else - 1)"
| "indexOf (c # cs) t =
     (if prefix t (c # cs) then 0
      else (let r = indexOf cs t in if r < 0 then - 1 else r + 1))"

fun lastIndexOf :: "'a list \<Rightarrow> 'a list \<Rightarrow> int" where
  "lastIndexOf [] t = (if t = [] then 0 else - 1)"
| "lastIndexOf (c # cs) t =
     (let r = lastIndexOf cs t in
      if 0 \<le> r then r + 1 else if prefix t (c # cs) then 0 else - 1)"

text \<open>
  \<^verbatim>\<open>s.slice(start, end)\<close>, for strings and arrays alike: a negative index counts from
  the end, every index is clamped to the length, and an empty result is returned
  when the clamped end is not after the clamped start. \<open>sliceFrom\<close> is the call with
  the end left out.
\<close>

definition clampIndex :: "nat \<Rightarrow> int \<Rightarrow> nat" where
  "clampIndex len i = (if i < 0 then nat (max (int len + i) 0) else min (nat i) len)"

definition slice :: "'a list \<Rightarrow> int \<Rightarrow> int \<Rightarrow> 'a list" where
  "slice s start stop =
     (let lo = clampIndex (length s) start; hi = clampIndex (length s) stop
      in take (hi - lo) (drop lo s))"

definition sliceFrom :: "'a list \<Rightarrow> int \<Rightarrow> 'a list" where
  "sliceFrom s start = drop (clampIndex (length s) start) s"

text \<open>
  \<^verbatim>\<open>s.split(sep)\<close> for a separator string: the pieces between the successive
  occurrences of \<open>sep\<close>, found from left to right. With the empty separator the
  string falls apart into its code units.
\<close>

function splitAcc :: "'a list \<Rightarrow> 'a list \<Rightarrow> 'a list \<Rightarrow> 'a list list" where
  "splitAcc [] acc s = map (\<lambda>c. [c]) s"
| "splitAcc (p # ps) acc [] = [rev acc]"
| "splitAcc (p # ps) acc (c # cs) =
     (if prefix (p # ps) (c # cs) then rev acc # splitAcc (p # ps) [] (drop (length ps) cs)
      else splitAcc (p # ps) (c # acc) cs)"
  by pat_completeness auto
termination
  by (relation "measure (\<lambda>(sep, acc, s). length s)") auto

definition split :: "'a list \<Rightarrow> 'a list \<Rightarrow> 'a list list" where
  "split s sep = splitAcc sep [] s"

text \<open>\<^verbatim>\<open>lines.join(sep)\<close>.\<close>

fun join :: "'a list list \<Rightarrow> 'a list \<Rightarrow> 'a list" where
  "join [] sep = []"
| "join [x] sep = x"
| "join (x # y # ys) sep = x @ sep @ join (y # ys) sep"

section \<open>The text utilities of \<^verbatim>\<open>text-processing.ts\<close>\<close>

definition OPENING_CODE_TAG :: jsstring where
  "OPENING_CODE_TAG = js ''<CODE5711>''"

definition CLOSING_CODE_TAG :: jsstring where
  "CLOSING_CODE_TAG = js ''</CODE5711>''"

text \<open>
  \<^verbatim>\<open>const [result] = completion.split(CLOSING_CODE_TAG)\<close> binds the first piece;
  \<open>split\<close> with a non-empty separator always yields at least one.
\<close>

definition extractFromCodeBlock :: "jsstring \<Rightarrow> jsstring" where
  "extractFromCodeBlock completion =
     (if includesStr completion OPENING_CODE_TAG then []
      else (case split completion CLOSING_CODE_TAG of
              [] \<Rightarrow> []
            | result # _ \<Rightarrow> trimEnd result))"

text \<open>The piece of \<open>s\<close> in front of the first occurrence of \<open>t\<close>; all of \<open>s\<close> without one.\<close>

definition beforeFirst :: "'a list \<Rightarrow> 'a list \<Rightarrow> 'a list" where
  "beforeFirst s t = (if indexOf s t < 0 then s else take (nat (indexOf s t)) s)"

text \<open>
  \<^verbatim>\<open>indentation\<close> reads the tab size from the active editor (2 without one); here it
  is an argument. The regular expression \<^verbatim>\<open>/^[\t ]*/\<close> always matches, so the
  fall-through \<^verbatim>\<open>return 0\<close> is never reached.
\<close>

definition indentation :: "nat \<Rightarrow> jsstring \<Rightarrow> nat" where
  "indentation tabSize line =
     foldl (\<lambda>p c. p + (if c = TAB then tabSize else 1)) 0
       (takeWhile (\<lambda>c. c = TAB \<or> c = SPACE) line)"

record TrimmedString =
  trimmed :: jsstring
  leadSpace :: jsstring
  rearSpace :: jsstring

record PrefixComponents =
  head :: TrimmedString
  tail :: TrimmedString
  overlap :: "jsstring option"

definition trimSpace :: "jsstring \<Rightarrow> TrimmedString" where
  "trimSpace s =
     (let trimmed = trim s;
          headEnd = indexOf s trimmed
      in \<lparr> trimmed = trimmed,
           leadSpace = slice s 0 headEnd,
           rearSpace = sliceFrom s (headEnd + int (length trimmed)) \<rparr>)"

text \<open>
  The backward loop of \<^verbatim>\<open>getHeadAndTail\<close>: \<open>i\<close> runs from the last line down to 0 and
  the loop leaves with \<open>tailStart = i\<close> as soon as two non-empty lines have been
  counted; \<open>-1\<close> is the initial value of \<open>tailStart\<close>, kept when the loop runs out.
  \<open>tailStart\<close> is the value of that variable after the loop.
\<close>

function tailStartLoop :: "jsstring list \<Rightarrow> int \<Rightarrow> nat \<Rightarrow> int" where
  "tailStartLoop lines i nonEmptyCount =
     (if 0 \<le> i then
        (let n = (if 0 < length (trim (lines ! nat i)) then nonEmptyCount + 1
                  else nonEmptyCount)
         in if 2 \<le> n then i else tailStartLoop lines (i - 1) n)
      else - 1)"
  by pat_completeness auto
termination
  by (relation "measure (\<lambda>(lines, i, n). nat (i + 1))") auto

declare tailStartLoop.simps [simp del]

definition tailStart :: "jsstring list \<Rightarrow> int" where
  "tailStart lines = tailStartLoop lines (int (length lines) - 1) 0"

definition getHeadAndTail :: "jsstring \<Rightarrow> PrefixComponents" where
  "getHeadAndTail s =
     (let lines = split s [LF]
      in if tailStart lines = - 1
         then \<lparr> head = trimSpace s, tail = trimSpace s, overlap = Some s \<rparr>
         else \<lparr> head = trimSpace (join (slice lines 0 (tailStart lines)) [LF]),
                tail = trimSpace (join (sliceFrom lines (tailStart lines)) [LF]),
                overlap = None \<rparr>)"

text \<open>The string a \<open>TrimmedString\<close> stands for.\<close>

definition untrimmed :: "TrimmedString \<Rightarrow> jsstring" where
  "untrimmed t = leadSpace t @ trimmed t @ rearSpace t"

subsection \<open>\<^verbatim>\<open>trimUntilSuffix\<close>\<close>

definition NUMBER_OF_CHARS_TO_MATCH_AND_CUT_SUFFIX :: int where
  "NUMBER_OF_CHARS_TO_MATCH_AND_CUT_SUFFIX = 15"

text \<open>
  \<^verbatim>\<open>value.search(/\S|$/)\<close>: the regular expression has no \<^verbatim>\<open>m\<close> flag, so \<^verbatim>\<open>$\<close> matches at
  the end of the string only, and the first match is at the first character that is
  not white space, or at the end of the string when there is none.
\<close>

definition searchNonWhitespace :: "jsstring \<Rightarrow> int" where
  "searchNonWhitespace v = int (length (takeWhile isWhiteSpace v))"

definition getFirstNCharsPreservingLeadingSpaces :: "jsstring \<Rightarrow> int \<Rightarrow> jsstring" where
  "getFirstNCharsPreservingLeadingSpaces v charsNumber =
     (let startIndex = searchNonWhitespace v in slice v 0 (startIndex + charsNumber))"

text \<open>
  The first loop of \<^verbatim>\<open>trimUntilSuffix\<close>: the first line whose \<^verbatim>\<open>trim()\<close> is not empty,
  and the initial value \<^verbatim>\<open>''\<close> of \<^verbatim>\<open>firstNonEmptySuffixLine\<close> when the lines run out.
\<close>

fun firstNonEmptyLine :: "jsstring list \<Rightarrow> jsstring" where
  "firstNonEmptyLine [] = []"
| "firstNonEmptyLine (line # rest) =
     (if 0 < length (trim line) then line else firstNonEmptyLine rest)"

text \<open>
  The second loop, over \<open>i\<close> from 0: it leaves with \<open>insertionEnd = i\<close> at the first
  line whose part is not empty and starts the part of the suffix line; otherwise
  \<open>insertionEnd\<close> keeps its initial value, the number of lines.
\<close>

function insertionEndLoop :: "jsstring list \<Rightarrow> jsstring \<Rightarrow> jsstring \<Rightarrow> nat \<Rightarrow> nat" where
  "insertionEndLoop insertionLines pre firstNonEmptySuffixLinePart i =
     (if i < length insertionLines then
        (let line = (if i = 0
                     then sliceFrom pre (lastIndexOf pre [LF] + 1) @ insertionLines ! i
                     else insertionLines ! i);
             linePart = getFirstNCharsPreservingLeadingSpaces line
                          NUMBER_OF_CHARS_TO_MATCH_AND_CUT_SUFFIX
         in if length linePart \<noteq> 0 \<and> startsWith firstNonEmptySuffixLinePart linePart
            then i
            else insertionEndLoop insertionLines pre firstNonEmptySuffixLinePart (i + 1))
      else length insertionLines)"
  by pat_completeness auto
termination
  by (relation "measure (\<lambda>(ls, pre, part, i). length ls - i)") auto

declare insertionEndLoop.simps [simp del]

definition trimUntilSuffix :: "jsstring \<Rightarrow> jsstring \<Rightarrow> jsstring \<Rightarrow> jsstring" where
  "trimUntilSuffix insertion0 pre suf =
     (let insertion = trimEnd insertion0;
          firstNonEmptySuffixLine = firstNonEmptyLine (split suf [LF])
      in if length firstNonEmptySuffixLine = 0 then insertion
         else
           (let insertionLines = split insertion [LF];
                firstNonEmptySuffixLinePart =
                  getFirstNCharsPreservingLeadingSpaces firstNonEmptySuffixLine
                    NUMBER_OF_CHARS_TO_MATCH_AND_CUT_SUFFIX;
                insertionEnd = insertionEndLoop insertionLines pre firstNonEmptySuffixLinePart 0
            in join (slice insertionLines 0 (int insertionEnd)) [LF]))"

text \<open>
  The same function in the words of its specification. A line is blank when it has
  white space only. The window of a line is its leading white space followed by the
  next 15 characters. The insertion is right-trimmed and cut into lines; its first
  line is compared with the content of the prefix after its last line feed in front
  of it. The result is the lines strictly before the first one whose window is not
  empty and is a prefix of the window of the first non-blank line of the suffix.
\<close>

definition isBlank :: "jsstring \<Rightarrow> bool" where
  "isBlank line = list_all isWhiteSpace line"

definition lineWindow :: "jsstring \<Rightarrow> jsstring" where
  "lineWindow line = takeWhile isWhiteSpace line @ take 15 (dropWhile isWhiteSpace line)"

definition afterLastLineFeed :: "jsstring \<Rightarrow> jsstring" where
  "afterLastLineFeed pre = rev (takeWhile (\<lambda>c. c \<noteq> LF) (rev pre))"

definition windowMatches :: "jsstring \<Rightarrow> jsstring \<Rightarrow> bool" where
  "windowMatches suffixLine line =
     (lineWindow line \<noteq> [] \<and> prefix (lineWindow line) (lineWindow suffixLine))"

definition alignedLines :: "jsstring \<Rightarrow> jsstring list \<Rightarrow> jsstring list" where
  "alignedLines pre ls = (case ls of [] \<Rightarrow> [] | l # rest \<Rightarrow> (afterLastLineFeed pre @ l) # rest)"

definition trimUntilSuffix_spec :: "jsstring \<Rightarrow> jsstring \<Rightarrow> jsstring \<Rightarrow> jsstring" where
  "trimUntilSuffix_spec insertion pre suf =
     (case find (\<lambda>l. \<not> isBlank l) (split suf [LF]) of
        None \<Rightarrow> trimEnd insertion
      | Some suffixLine \<Rightarrow>
          (let ls = split (trimEnd insertion) [LF];
               kept = length (takeWhile (\<lambda>l. \<not> windowMatches suffixLine l) (alignedLines pre ls))
           in join (take kept ls) [LF]))"

subsection \<open>\<^verbatim>\<open>fixBadCompletionStart\<close>\<close>

text \<open>
  \<^verbatim>\<open>BAD_COMPLETION_START = /^(\p{Emoji_Presentation}|\u{200B}|\+ |- |\. )+(\s)+/u\<close>.
  The \<^verbatim>\<open>u\<close> flag makes the matcher read code points: a high surrogate followed by a
  low surrogate is one code point, any other code unit is a code point of its own.
  The table of the Unicode property \<^verbatim>\<open>Emoji_Presentation\<close> belongs to the JavaScript
  engine and is not part of the sources; it is the argument \<open>ep\<close>, a predicate on
  code points.
\<close>

definition isHighSurrogate :: "jschar \<Rightarrow> bool" where
  "isHighSurrogate c = (0xD800 \<le> c \<and> c \<le> 0xDBFF)"

definition isLowSurrogate :: "jschar \<Rightarrow> bool" where
  "isLowSurrogate c = (0xDC00 \<le> c \<and> c \<le> 0xDFFF)"

definition codePoint :: "jschar \<Rightarrow> jschar \<Rightarrow> nat" where
  "codePoint hi lo = 0x10000 + (unat hi - 0xD800) * 0x400 + (unat lo - 0xDC00)"

fun nextCodePoint :: "jsstring \<Rightarrow> (nat \<times> jsstring) option" where
  "nextCodePoint [] = None"
| "nextCodePoint [c] = Some (unat c, [])"
| "nextCodePoint (c # d # r) =
     (if isHighSurrogate c \<and> isLowSurrogate d then Some (codePoint c d, r)
      else Some (unat c, d # r))"

text \<open>
  One iteration of the group \<^verbatim>\<open>(\p{Emoji_Presentation}|\u{200B}|\+ |- |\. )\<close> at the
  front of \<open>s\<close>: what is left of \<open>s\<close> after each alternative that matches, in the
  order of the alternatives.
\<close>

definition matchCodePoint :: "(nat \<Rightarrow> bool) \<Rightarrow> jsstring \<Rightarrow> jsstring list" where
  "matchCodePoint p s =
     (case nextCodePoint s of None \<Rightarrow> [] | Some (cp, r) \<Rightarrow> if p cp then [r] else [])"

definition matchLiteral :: "jsstring \<Rightarrow> jsstring \<Rightarrow> jsstring list" where
  "matchLiteral lit s = (if prefix lit s then [drop (length lit) s] else [])"

definition matchBadToken :: "(nat \<Rightarrow> bool) \<Rightarrow> jsstring \<Rightarrow> jsstring list" where
  "matchBadToken ep s =
     matchCodePoint ep s @ matchCodePoint (\<lambda>cp. cp = 0x200B) s
       @ matchLiteral (js ''+ '') s @ matchLiteral (js ''- '') s @ matchLiteral (js ''. '') s"

text \<open>\<^verbatim>\<open>(\s)+\<close> is greedy and ends the expression: it takes all the white space there is.\<close>

definition matchSpaces :: "jsstring \<Rightarrow> jsstring option" where
  "matchSpaces s =
     (case s of [] \<Rightarrow> None
      | c # r \<Rightarrow> if isWhiteSpace c then Some (dropWhile isWhiteSpace s) else None)"

lemma matchBadToken_shorter: "r \<in> set (matchBadToken ep s) \<Longrightarrow> length r < length s"
  by (cases s rule: nextCodePoint.cases)
     (auto simp: matchBadToken_def matchCodePoint_def matchLiteral_def js_def
           split: if_splits)

text \<open>
  The backtracking matcher for \<^verbatim>\<open>(...)+(\s)+\<close> at the front of \<open>s\<close>. \<open>matchBadStart\<close>
  matches one iteration of the group and hands the choices, in the order of the
  alternatives, to \<open>matchBadStartFrom\<close>: for each choice it first tries further
  iterations (\<^verbatim>\<open>+\<close> is greedy) and then the white space; when both fail it goes back to
  the next choice. The result is what follows the match, or \<open>None\<close> when the
  expression does not match.
\<close>

definition longestRest :: "jsstring list \<Rightarrow> nat" where
  "longestRest rs = foldr (\<lambda>r m. max (Suc (length r)) m) rs 0"

lemma longestRest_Cons: "longestRest (r # rs) = max (Suc (length r)) (longestRest rs)"
  by (simp add: longestRest_def)

lemma longestRest_bound: "\<forall>r \<in> set rs. length r < n \<Longrightarrow> longestRest rs \<le> n"
  by (induction rs) (simp_all add: longestRest_def)

lemma longestRest_matchBadToken: "longestRest (matchBadToken ep s) < Suc (length s)"
  using longestRest_bound [of "matchBadToken ep s" "length s"]
  by (simp add: matchBadToken_shorter less_Suc_eq_le)

function matchBadStart :: "(nat \<Rightarrow> bool) \<Rightarrow> jsstring \<Rightarrow> jsstring option"
  and matchBadStartFrom :: "(nat \<Rightarrow> bool) \<Rightarrow> jsstring list \<Rightarrow> jsstring option"
where
  "matchBadStart ep s = matchBadStartFrom ep (matchBadToken ep s)"
| "matchBadStartFrom ep [] = None"
| "matchBadStartFrom ep (r # rs) =
     (case matchBadStart ep r of
        Some rest \<Rightarrow> Some rest
      | None \<Rightarrow>
          (case matchSpaces r of
             Some rest \<Rightarrow> Some rest
           | None \<Rightarrow> matchBadStartFrom ep rs))"
  by pat_completeness auto
termination
  by (relation "inv_image (less_than <*lex*> less_than)
         (\<lambda>x. case x of Inl (ep, s) \<Rightarrow> (Suc (length s), 0)
                      | Inr (ep, rs) \<Rightarrow> (longestRest rs, length rs))")
     (auto simp: longestRest_Cons longestRest_matchBadToken)

declare matchBadStart.simps [simp del]

text \<open>One choice of the matcher: further iterations first, the white space second.\<close>

definition matchRest :: "(nat \<Rightarrow> bool) \<Rightarrow> jsstring \<Rightarrow> jsstring option" where
  "matchRest ep r = (case matchBadStart ep r of Some rest \<Rightarrow> Some rest | None \<Rightarrow> matchSpaces r)"

text \<open>
  \<^verbatim>\<open>test\<close> and \<^verbatim>\<open>replace\<close> use the same anchored expression without the \<^verbatim>\<open>g\<close> flag: when
  it matches, the match starts at 0 and is replaced by the empty string.
\<close>

definition fixBadCompletionStart :: "(nat \<Rightarrow> bool) \<Rightarrow> jsstring \<Rightarrow> jsstring" where
  "fixBadCompletionStart ep completion =
     (case matchBadStart ep completion of
        Some rest \<Rightarrow> rest
      | None \<Rightarrow> completion)"

text \<open>
  The words of the specification: a bad token is an emoji-presentation character
  (one code unit, or a surrogate pair), a zero-width space, or one of the strings
  \<^verbatim>\<open>"+ "\<close>, \<^verbatim>\<open>"- "\<close>, \<^verbatim>\<open>". "\<close>.
\<close>

definition isBadToken :: "(nat \<Rightarrow> bool) \<Rightarrow> jsstring \<Rightarrow> bool" where
  "isBadToken ep t =
     ((case t of
         [c] \<Rightarrow> \<not> isHighSurrogate c \<and> \<not> isLowSurrogate c \<and> ep (unat c)
       | [hi, lo] \<Rightarrow> isHighSurrogate hi \<and> isLowSurrogate lo \<and> ep (codePoint hi lo)
       | _ \<Rightarrow> False)
      \<or> t = [0x200B] \<or> t = js ''+ '' \<or> t = js ''- '' \<or> t = js ''. '')"

text \<open>
  What the proofs use of the table \<^verbatim>\<open>Emoji_Presentation\<close>: no white space character, no
  surrogate code point and none of \<^verbatim>\<open>+\<close>, \<^verbatim>\<open>-\<close>, \<^verbatim>\<open>.\<close> has the property.
\<close>

definition emojiTableOk :: "(nat \<Rightarrow> bool) \<Rightarrow> bool" where
  "emojiTableOk ep =
     ((\<forall>c :: jschar. ep (unat c) \<longrightarrow>
          \<not> isWhiteSpace c \<and> \<not> isHighSurrogate c \<and> \<not> isLowSurrogate c)
      \<and> \<not> ep 0x2B \<and> \<not> ep 0x2D \<and> \<not> ep 0x2E)"

subsection \<open>\<^verbatim>\<open>collapseDuplicativeWhitespace\<close>\<close>

text \<open>
  \<^verbatim>\<open>completion.replace(/^[\t ]+/, '')\<close> removes the leading run of tabs and spaces, and
  leaves a completion without one as it is.
\<close>

definition collapseDuplicativeWhitespace :: "jsstring \<Rightarrow> jsstring \<Rightarrow> jsstring" where
  "collapseDuplicativeWhitespace pre completion =
     (if endsWith pre [SPACE] \<or> endsWith pre [TAB]
      then dropWhile (\<lambda>c. c = TAB \<or> c = SPACE) completion
      else completion)"

subsection \<open>\<^verbatim>\<open>trimLeadingWhitespaceUntilNewline\<close>\<close>

text \<open>
  \<^verbatim>\<open>str.replace(/^\s+?(\r?\n)/, '$1')\<close>: the lazy \<^verbatim>\<open>\s+?\<close> takes the shortest run of one
  or more white space characters at the start of the string that a line break
  (\<^verbatim>\<open>\n\<close> or \<^verbatim>\<open>\r\n\<close>) follows; the run is removed and the line break kept. \<open>untilNewline\<close>
  is the search for that line break after the first character of the run.
\<close>

definition CR :: jschar where "CR = 0x0D"

fun untilNewline :: "jsstring \<Rightarrow> jsstring option" where
  "untilNewline [] = None"
| "untilNewline (c # cs) =
     (if startsWith (c # cs) [LF] \<or> startsWith (c # cs) [CR, LF] then Some (c # cs)
      else if isWhiteSpace c then untilNewline cs else None)"

definition trimLeadingWhitespaceUntilNewline :: "jsstring \<Rightarrow> jsstring" where
  "trimLeadingWhitespaceUntilNewline str =
     (case str of
        [] \<Rightarrow> str
      | c # cs \<Rightarrow>
          if isWhiteSpace c
          then (case untilNewline cs of Some rest \<Rightarrow> rest | None \<Rightarrow> str)
          else str)"

section \<open>The completion pipeline\<close>

text \<open>
  The sources hold the text utilities and the tests of the completion provider; the
  truncation engine, the cache and the orchestrator themselves are not among them.
  This section models them from the specification, each definition next to the
  sentences it follows. Where the specification leaves a choice open, or the tests
  of \<^verbatim>\<open>completion.test.ts\<close> expect another result than its words give, the model
  follows the tests, and the definition names them.
\<close>

subsection \<open>Language descriptors\<close>

text \<open>
  Modelled from the spec: the language descriptor (section 9), which is missing from
  the sources: "a static mapping from language tag to a small descriptor struct
  (continuation keywords, brace style, enabled-for-multiline flag)". The brace style
  is the list of the closing brackets of the language.
\<close>

record LanguageConfig =
  continuationKeywords :: "jsstring list"
  closingBrackets :: "jschar list"
  multilineEnabled :: bool

text \<open>
  Modelled from the spec: the recognition of continuation lines, missing from the
  sources. "Continuation lines are recognized by a small per-language keyword set";
  a continuation line is "a line beginning a clause (e.g., else, catch) that extends
  the current block rather than closing it", as in \<^verbatim>\<open>} else {\<close>: after its indentation
  and closing brackets the line begins with one of the keywords.
\<close>

definition isContinuationLine :: "LanguageConfig \<Rightarrow> jsstring \<Rightarrow> bool" where
  "isContinuationLine lang line =
     (let clause = dropWhile (\<lambda>c. isWhiteSpace c \<or> c \<in> set (closingBrackets lang)) line
      in list_ex (\<lambda>kw. kw \<noteq> [] \<and> prefix kw clause) (continuationKeywords lang))"

subsection \<open>The multi-line truncation engine\<close>

text \<open>
  Modelled from the spec: the input of the truncation engine (section 4.2), missing
  from the sources: "the indentation level of the line containing the cursor (the
  start indentation), and the declared tab width", and the descriptor of the
  language. Two facts about the text around the cursor complete it: whether the line
  of the cursor is blank in front of the cursor, and whether a closing line is to
  be included (see \<open>retainsClosingBracket\<close>).
\<close>

record TruncationContext =
  startIndent :: nat
  tabWidth :: nat
  language :: LanguageConfig
  cursorLineBlank :: bool
  includeClosingLine :: bool

text \<open>
  Modelled from the spec: the candidate terminator of section 4.2, missing from the
  sources. "Skip/merge purely blank lines (do not terminate on them). A line is a
  candidate terminator when its indentation is less-than-or-equal to the start
  indentation AND it is not an else/elif/catch-style continuation of a block the
  model is still completing." The first line of the candidate continues the line of
  the cursor. When that line holds code in front of the cursor, the block that the
  candidate completes is indented deeper than it, and a line at the start
  indentation ends the block. When the line of the cursor is blank, the candidate
  itself stands at the start indentation and its lines at this indentation belong
  to it: the tests of \<^verbatim>\<open>completion.test.ts\<close> keep them (\<^verbatim>\<open>skips over empty lines\<close>,
  \<^verbatim>\<open>skips over else blocks\<close>, \<^verbatim>\<open>ranks results by number of lines\<close>), and only a line
  below the start indentation is a terminator.
\<close>

definition isTerminator :: "TruncationContext \<Rightarrow> jsstring \<Rightarrow> bool" where
  "isTerminator ctx line =
     (\<not> isBlank line \<and> \<not> isContinuationLine (language ctx) line
      \<and> (indentation (tabWidth ctx) line < startIndent ctx
          \<or> (indentation (tabWidth ctx) line = startIndent ctx \<and> \<not> cursorLineBlank ctx)))"

text \<open>
  Modelled from the spec: the retention of a closing bracket (section 4.2), missing
  from the sources: the terminator is included when it "is exactly a lone closing
  bracket that matches an opening bracket opened within the emitted region and the
  original surrounding prefix did not already supply that closer". The bracket that
  a retained line closes may have been opened in front of the cursor (the tests
  \<^verbatim>\<open>includes closing parentheses in the completion\<close> and \<^verbatim>\<open>works with java\<close>), and whether
  the surrounding text supplies the closer is a fact about the document, so the
  engine is told by its context whether a closing line is to be included.
\<close>

definition isLoneClosingBracket :: "jsstring \<Rightarrow> bool" where
  "isLoneClosingBracket line =
     (case trim line of [c] \<Rightarrow> c = 0x29 \<or> c = 0x5D \<or> c = 0x7D | _ \<Rightarrow> False)"

definition retainsClosingBracket :: "TruncationContext \<Rightarrow> jsstring \<Rightarrow> bool" where
  "retainsClosingBracket ctx line = (isLoneClosingBracket line \<and> includeClosingLine ctx)"

text \<open>
  Modelled from the spec: the walk of section 4.2, missing from the sources. "Walk
  the candidate line by line"; "skip/merge purely blank lines"; "stop emission at
  the first such terminator line, excluding it, UNLESS" the closing bracket is
  retained, "in that case include it". \<open>emitted\<close> are the lines emitted so far and
  \<open>blanks\<close> the blank lines met since the last of them: a blank line is emitted
  together with the next line emitted, so that the text cut at a terminator does not
  end with blank lines (the expected text of the test \<^verbatim>\<open>works with python\<close>).
\<close>

fun truncateWalk ::
  "TruncationContext \<Rightarrow> jsstring list \<Rightarrow> jsstring list \<Rightarrow> jsstring list \<Rightarrow> jsstring list" where
  "truncateWalk ctx emitted blanks [] = emitted @ blanks"
| "truncateWalk ctx emitted blanks (line # rest) =
     (if isBlank line then truncateWalk ctx emitted (blanks @ [line]) rest
      else if isTerminator ctx line
      then (if retainsClosingBracket ctx line then emitted @ blanks @ [line] else emitted)
      else truncateWalk ctx (emitted @ blanks @ [line]) [] rest)"

text \<open>
  Modelled from the spec: the truncation engine of section 4.2, missing from the
  sources. The first line of the candidate continues the line of the cursor, whose
  indentation is the start indentation: it is emitted, and the walk starts at the
  second line. The engine never puts text in front of the candidate, which is all
  that the rule "do not prepend a spurious close" asks of it.
\<close>

definition truncatedLines :: "TruncationContext \<Rightarrow> jsstring \<Rightarrow> jsstring list" where
  "truncatedLines ctx candidate =
     (case split candidate [LF] of
        [] \<Rightarrow> []
      | first # rest \<Rightarrow> truncateWalk ctx [first] [] rest)"

definition truncateMultilineCompletion :: "TruncationContext \<Rightarrow> jsstring \<Rightarrow> jsstring" where
  "truncateMultilineCompletion ctx candidate = join (truncatedLines ctx candidate) [LF]"



subsection \<open>Ranking and deduplication\<close>

text \<open>
  Modelled from the spec: the ranking of section 4.4, missing from the sources.
  "Sort surviving candidates by descending number of lines, stable on ties by
  original request order." \<open>sort_key\<close> is the stable insertion sort of the library.
\<close>

definition lineCount :: "jsstring \<Rightarrow> nat" where
  "lineCount c = length (split c [LF])"

definition rankCompletions :: "jsstring list \<Rightarrow> jsstring list" where
  "rankCompletions cs = sort_key (\<lambda>c. - int (lineCount c)) cs"

text \<open>
  Modelled from the spec: the deduplication of section 4.4, missing from the
  sources. "Candidates with identical final insertion text collapse to one (first
  occurrence kept)."
\<close>

fun dedupe :: "jsstring list \<Rightarrow> jsstring list" where
  "dedupe [] = []"
| "dedupe (c # cs) = c # dedupe (filter (\<lambda>d. d \<noteq> c) cs)"

text \<open>
  Modelled from the spec: the order of the two steps in section 4.4, ranking first
  and deduplication second, missing from the sources. This is the list returned.
\<close>

definition finalCandidates :: "jsstring list \<Rightarrow> jsstring list" where
  "finalCandidates cs = dedupe (rankCompletions cs)"

text \<open>
  Descriptors for the examples: a language with braces whose continuation keywords
  are \<^verbatim>\<open>else\<close>, \<^verbatim>\<open>catch\<close> and \<^verbatim>\<open>finally\<close>, and a language of indented blocks with the
  keywords \<^verbatim>\<open>elif\<close>, \<^verbatim>\<open>else\<close>, \<^verbatim>\<open>except\<close> and \<^verbatim>\<open>finally\<close>.
\<close>

definition braceLanguage :: LanguageConfig where
  "braceLanguage =
     \<lparr> continuationKeywords = [js ''else'', js ''catch'', js ''finally''],
       closingBrackets = [0x7D],
       multilineEnabled = True \<rparr>"

definition indentLanguage :: LanguageConfig where
  "indentLanguage =
     \<lparr> continuationKeywords = [js ''elif'', js ''else'', js ''except'', js ''finally''],
       closingBrackets = [],
       multilineEnabled = True \<rparr>"

subsection \<open>The completion cache\<close>

text \<open>
  Modelled from the spec: the cache entry of section 3, missing from the sources:
  "keyed by exact (prefix, suffix)", its value "the full accepted completion text
  for that context". The cache is the list of its entries in the order of their
  insertion, oldest first.
\<close>

record CacheEntry =
  entryPrefix :: jsstring
  entrySuffix :: jsstring
  entryCompletions :: "jsstring list"

text \<open>
  Modelled from the spec: the synthesis rule of section 4.3, missing from the
  sources. "If the new prefix equals a previously cached prefix with additional
  characters appended that are themselves a strict prefix of that cache entry's
  stored completion, and the suffix is unchanged, return the remainder of the stored
  completion as a zero-latency candidate." With no additional characters this is
  the exact lookup.
\<close>

definition synthesize :: "CacheEntry \<Rightarrow> jsstring \<Rightarrow> jsstring \<Rightarrow> jsstring list" where
  "synthesize e pre suf =
     (if entrySuffix e = suf \<and> prefix (entryPrefix e) pre
      then (let typed = drop (length (entryPrefix e)) pre
            in map (drop (length typed)) (filter (strict_prefix typed) (entryCompletions e)))
      else [])"

text \<open>
  Modelled from the spec: \<^verbatim>\<open>get(prefix, suffix) -> candidate[] | undefined\<close> of section
  4.3, "exact or position-contained lookup", missing from the sources. Every entry
  that the synthesis rule applies to gives its candidates.
\<close>

definition cacheGet :: "CacheEntry list \<Rightarrow> jsstring \<Rightarrow> jsstring \<Rightarrow> jsstring list option" where
  "cacheGet cache pre suf =
     (let found = concat (map (\<lambda>e. synthesize e pre suf) cache)
      in if found = [] then None else Some found)"

text \<open>
  Modelled from the spec: \<^verbatim>\<open>add(prefix, suffix, completions)\<close> and the eviction of
  section 4.3, missing from the sources: "bounded capacity; oldest-inserted entries
  evicted first once capacity is exceeded".
\<close>

definition cacheAdd ::
  "nat \<Rightarrow> CacheEntry list \<Rightarrow> jsstring \<Rightarrow> jsstring \<Rightarrow> jsstring list \<Rightarrow> CacheEntry list" where
  "cacheAdd capacity cache pre suf completions =
     (let grown = cache @ [\<lparr> entryPrefix = pre, entrySuffix = suf,
                             entryCompletions = completions \<rparr>]
      in drop (length grown - capacity) grown)"

subsection \<open>The orchestrator\<close>

text \<open>
  Modelled from the spec: the trigger context of section 3 and the configuration of
  the orchestrator, missing from the sources. The context carries the "language
  identifier, prefix string, suffix string, trigger kind, optional pre-selected
  completion info"; the configuration carries the eager-triggering switch, the tab
  width of the editor, the table of \<^verbatim>\<open>Emoji_Presentation\<close>, the static mapping from
  language tag to descriptor, and the capacity of the cache.
\<close>

datatype TriggerKind = Invoke | Automatic

record TriggerContext =
  docPrefix :: jsstring
  docSuffix :: jsstring
  languageId :: jsstring
  triggerKind :: TriggerKind
  selectedCompletionInfo :: "jsstring option"

record OrchestratorConfig =
  triggerMoreEagerly :: bool
  editorTabSize :: nat
  emojiPresentation :: "nat \<Rightarrow> bool"
  languageConfigs :: "jsstring \<Rightarrow> LanguageConfig option"
  cacheCapacity :: nat

text \<open>
  Modelled from the spec: the state \<^verbatim>\<open>Deciding\<close> of section 4.4, missing from the
  sources. "Reject (go back to Idle, return no candidates) when: a
  selected-completion-info is present in the context; or the cursor is
  mid-identifier and eager-triggering is disabled; or non-blank suffix exists on the
  same line beyond the cursor", "the only exception is when that trailing content
  is itself only a closing/special-tag sequence". The cursor is mid-identifier when
  the character in front of it is a letter, a digit or an underscore; the trailing
  content is a closing sequence when it has no such character.
\<close>

definition isIdentifierChar :: "jschar \<Rightarrow> bool" where
  "isIdentifierChar c =
     ((0x30 \<le> c \<and> c \<le> 0x39) \<or> (0x41 \<le> c \<and> c \<le> 0x5A) \<or> (0x61 \<le> c \<and> c \<le> 0x7A)
      \<or> c = 0x5F)"

definition midIdentifier :: "jsstring \<Rightarrow> bool" where
  "midIdentifier pre = (case rev pre of [] \<Rightarrow> False | c # _ \<Rightarrow> isIdentifierChar c)"

definition sameLineSuffix :: "jsstring \<Rightarrow> jsstring" where
  "sameLineSuffix suf = takeWhile (\<lambda>c. c \<noteq> LF) suf"

definition isClosingSequence :: "jsstring \<Rightarrow> bool" where
  "isClosingSequence s = list_all (\<lambda>c. \<not> isIdentifierChar c) s"

definition rejectsTrigger :: "OrchestratorConfig \<Rightarrow> TriggerContext \<Rightarrow> bool" where
  "rejectsTrigger cfg ctx =
     (selectedCompletionInfo ctx \<noteq> None
      \<or> (midIdentifier (docPrefix ctx) \<and> \<not> triggerMoreEagerly cfg)
      \<or> (\<not> isBlank (sameLineSuffix (docSuffix ctx))
          \<and> \<not> isClosingSequence (sameLineSuffix (docSuffix ctx))))"

text \<open>
  Modelled from the spec: the mode of a request (section 4.4, \<^verbatim>\<open>Requesting\<close>), missing
  from the sources: "determine single-line vs multi-line eligibility (language
  allow-list, indentation context at cursor indicates start of a new block)". The
  cursor is at the start of a new block when its line is blank in front of it and
  indented deeper than the last non-blank line above it (the tests
  \<^verbatim>\<open>triggers a multi-line completion at the start of a block\<close>,
  \<^verbatim>\<open>requires an indentation to start a block\<close> and
  \<^verbatim>\<open>only complete one line in single line mode\<close>), or when the text in front of it
  on its line ends with an opening bracket (the tests
  \<^verbatim>\<open>should trigger a request if the suffix of the same line is only special tags\<close> and
  \<^verbatim>\<open>keeps the closing bracket\<close>). The result is the descriptor of the language in
  multi-line mode and \<open>None\<close> in single-line mode.
\<close>

definition linesAbove :: "jsstring \<Rightarrow> jsstring list" where
  "linesAbove pre = butlast (split pre [LF])"

definition indentAbove :: "nat \<Rightarrow> jsstring \<Rightarrow> nat" where
  "indentAbove tab pre =
     (case find (\<lambda>l. \<not> isBlank l) (rev (linesAbove pre)) of
        None \<Rightarrow> 0
      | Some l \<Rightarrow> indentation tab l)"

definition endsWithOpeningBracket :: "jsstring \<Rightarrow> bool" where
  "endsWithOpeningBracket line =
     (case rev line of [] \<Rightarrow> False | c # _ \<Rightarrow> c = 0x28 \<or> c = 0x5B \<or> c = 0x7B)"

definition startsNewBlock :: "nat \<Rightarrow> jsstring \<Rightarrow> bool" where
  "startsNewBlock tab pre =
     ((isBlank (afterLastLineFeed pre)
         \<and> indentAbove tab pre < indentation tab (afterLastLineFeed pre))
      \<or> endsWithOpeningBracket (afterLastLineFeed pre))"

definition multilineMode :: "OrchestratorConfig \<Rightarrow> TriggerContext \<Rightarrow> LanguageConfig option" where
  "multilineMode cfg ctx =
     (case languageConfigs cfg (languageId ctx) of
        None \<Rightarrow> None
      | Some lang \<Rightarrow>
          if multilineEnabled lang \<and> startsNewBlock (editorTabSize cfg) (docPrefix ctx)
          then Some lang else None)"

text \<open>
  Modelled from the spec: the requests of section 4.4, missing from the sources.
  "Build 1 candidate request for single-line mode, or up to 3 parallel requests with
  varied sampling for multi-line mode, each carrying a stop-sequence set (always
  includes a human/assistant turn delimiter and the closing code-block delimiter;
  single-line mode additionally stops on blank-line sequences)." The prompt is
  outside the specification and is left out of the request.
\<close>

record CompletionRequest =
  stopSequences :: "jsstring list"
  sampling :: nat

definition buildRequests :: "bool \<Rightarrow> CompletionRequest list" where
  "buildRequests multiline =
     (if multiline
      then map (\<lambda>k. \<lparr> stopSequences = [[LF, LF] @ js ''Human:'', CLOSING_CODE_TAG],
                       sampling = k \<rparr>) [0, 1, 2]
      else [\<lparr> stopSequences = [[LF, LF] @ js ''Human:'', CLOSING_CODE_TAG, [LF, LF]],
               sampling = 0 \<rparr>])"

text \<open>
  Modelled from the spec: the call \<^verbatim>\<open>complete(parameters) -> Promise<CompletionResponse>\<close>
  of the external completions client (section 6), which is not part of the core. A
  promise resolves with a value, is rejected (the request throws), or never settles
  (a stalled request, section 5). \<open>thenMap\<close> is \<^verbatim>\<open>promise.then(f)\<close>, \<open>catchWith\<close> is
  \<^verbatim>\<open>promise.catch(() => d)\<close>, and \<open>promiseAll\<close> is \<^verbatim>\<open>Promise.all\<close>: it is rejected as soon
  as one of the promises is, never settles when none is rejected and one never
  settles, and resolves with the list of the values otherwise.
\<close>

datatype 'a Promise = Resolved 'a | Threw | Stalled

definition thenMap :: "('a \<Rightarrow> 'b) \<Rightarrow> 'a Promise \<Rightarrow> 'b Promise" where
  "thenMap f p = (case p of Resolved x \<Rightarrow> Resolved (f x) | Threw \<Rightarrow> Threw | Stalled \<Rightarrow> Stalled)"

definition catchWith :: "'a \<Rightarrow> 'a Promise \<Rightarrow> 'a Promise" where
  "catchWith d p = (case p of Resolved x \<Rightarrow> Resolved x | Threw \<Rightarrow> Resolved d | Stalled \<Rightarrow> Stalled)"

fun promiseAll :: "'a Promise list \<Rightarrow> 'a list Promise" where
  "promiseAll [] = Resolved []"
| "promiseAll (p # ps) =
     (case p of
        Threw \<Rightarrow> Threw
      | Stalled \<Rightarrow> (case promiseAll ps of Threw \<Rightarrow> Threw | _ \<Rightarrow> Stalled)
      | Resolved x \<Rightarrow> thenMap (\<lambda>xs. x # xs) (promiseAll ps))"

text \<open>
  Modelled from the spec: the state \<^verbatim>\<open>Processing\<close> of section 4.4, missing from the
  sources. "For each raw response: extract code block, fix bad start, apply
  suffix-overlap trim, (if multi-line) run the truncation engine, collapse duplicate
  whitespace against the prefix, drop if resulting text is empty." The text
  utilities are the functions of \<^verbatim>\<open>text-processing.ts\<close>; among them
  \<^verbatim>\<open>trimLeadingWhitespaceUntilNewline\<close>, which "normalizes models that echo
  indentation before an intended blank first line" (section 4.1), is applied to the
  extracted text (the test \<^verbatim>\<open>honors a leading new line in the completion\<close>). In
  single-line mode the first line of the candidate is kept (the test
  \<^verbatim>\<open>only complete one line in single line mode\<close>). The start indentation is the
  indentation of the line containing the cursor. A closing line is included when no
  non-blank line follows the line of the cursor, and left to the text after the
  cursor otherwise (the tests \<^verbatim>\<open>includes closing parentheses in the completion\<close> and
  \<^verbatim>\<open>does not include block end character if there is already content in the block\<close>).
\<close>

definition truncationContext ::
  "OrchestratorConfig \<Rightarrow> TriggerContext \<Rightarrow> LanguageConfig \<Rightarrow> TruncationContext" where
  "truncationContext cfg ctx lang =
     \<lparr> startIndent = indentation (editorTabSize cfg) (afterLastLineFeed (docPrefix ctx)),
       tabWidth = editorTabSize cfg,
       language = lang,
       cursorLineBlank = isBlank (afterLastLineFeed (docPrefix ctx)),
       includeClosingLine = list_all isBlank (tl (split (docSuffix ctx) [LF])) \<rparr>"

definition firstLine :: "jsstring \<Rightarrow> jsstring" where
  "firstLine s = takeWhile (\<lambda>c. c \<noteq> LF) s"

definition processResponse ::
  "OrchestratorConfig \<Rightarrow> TriggerContext \<Rightarrow> LanguageConfig option \<Rightarrow> jsstring \<Rightarrow> jsstring list" where
  "processResponse cfg ctx mode raw =
     (let extracted = trimLeadingWhitespaceUntilNewline (extractFromCodeBlock raw);
          fixed = fixBadCompletionStart (emojiPresentation cfg) extracted;
          fitted = trimUntilSuffix fixed (docPrefix ctx) (docSuffix ctx);
          truncated = (case mode of
                         None \<Rightarrow> firstLine fitted
                       | Some lang \<Rightarrow>
                           truncateMultilineCompletion (truncationContext cfg ctx lang) fitted);
          collapsed = collapseDuplicativeWhitespace (docPrefix ctx) truncated
      in if collapsed = [] then [] else [collapsed])"

text \<open>
  Modelled from the spec: the requests of a trigger and the failure rule (sections
  4.4 and 5), missing from the sources. The requests "fire in parallel, join all
  before moving to Processing"; "a request that throws is treated as producing zero
  candidates for its branch; other branches still contribute". A branch is the call
  of the client with its rejection caught: it resolves with the raw completion, or
  with nothing when the request throws. The join is \<open>promiseAll\<close> over the branches.
\<close>

definition requestBranch ::
  "(CompletionRequest \<Rightarrow> jsstring Promise) \<Rightarrow> CompletionRequest \<Rightarrow> jsstring option Promise" where
  "requestBranch client request = catchWith None (thenMap Some (client request))"

definition joinBranches ::
  "(CompletionRequest \<Rightarrow> jsstring Promise) \<Rightarrow> CompletionRequest list
     \<Rightarrow> jsstring option list Promise" where
  "joinBranches client reqs = promiseAll (map (requestBranch client) reqs)"

definition branchCandidates ::
  "OrchestratorConfig \<Rightarrow> TriggerContext \<Rightarrow> LanguageConfig option \<Rightarrow> jsstring option
     \<Rightarrow> jsstring list" where
  "branchCandidates cfg ctx mode response =
     (case response of
        Some raw \<Rightarrow> processResponse cfg ctx mode raw
      | None \<Rightarrow> [])"

text \<open>
  Modelled from the spec: the public entry point \<^verbatim>\<open>provideInlineCompletionItems\<close>
  (sections 2, 4.4, 5 and 7), missing from the sources. The control flow is that of
  section 2: the "orchestrator receives a trigger", "consults cache", "if miss,
  decides single-line vs multi-line mode and builds stop-sequence sets", "issues
  request(s) to the external client", "for each raw response, runs text utilities
  and the truncation engine", "dedupes/ranks", "stores in cache", "returns ordered
  candidates". When the cache synthesis succeeds the candidates are produced
  without a call of the client (\<^verbatim>\<open>ShortCircuit\<close>) and ranked and deduplicated as all
  candidates returned. On a miss the rejections of \<^verbatim>\<open>Deciding\<close> keep the trigger from
  \<^verbatim>\<open>Requesting\<close>, and it returns no candidates. The call is a promise: it is pending
  for as long as the join never settles, and it would throw if the join were
  rejected. The result records the requests issued to the client and the cache
  after the call.
\<close>

datatype Outcome = Returned "jsstring list" | Pending | Thrown

record ProviderResult =
  outcome :: Outcome
  requests :: "CompletionRequest list"
  cacheAfter :: "CacheEntry list"

definition provideInlineCompletionItems ::
  "OrchestratorConfig \<Rightarrow> (CompletionRequest \<Rightarrow> jsstring Promise) \<Rightarrow> CacheEntry list
     \<Rightarrow> TriggerContext \<Rightarrow> ProviderResult" where
  "provideInlineCompletionItems cfg client cache ctx =
     (case cacheGet cache (docPrefix ctx) (docSuffix ctx) of
        Some found \<Rightarrow>
          \<lparr> outcome = Returned (finalCandidates found), requests = [], cacheAfter = cache \<rparr>
      | None \<Rightarrow>
          if rejectsTrigger cfg ctx
          then \<lparr> outcome = Returned [], requests = [], cacheAfter = cache \<rparr>
          else
            (let mode = multilineMode cfg ctx;
                 reqs = buildRequests (mode \<noteq> None)
             in case joinBranches client reqs of
                  Threw \<Rightarrow> \<lparr> outcome = Thrown, requests = reqs, cacheAfter = cache \<rparr>
                | Stalled \<Rightarrow> \<lparr> outcome = Pending, requests = reqs, cacheAfter = cache \<rparr>
                | Resolved responses \<Rightarrow>
                    (let candidates =
                           finalCandidates (concat (map (branchCandidates cfg ctx mode) responses))
                     in \<lparr> outcome = Returned candidates, requests = reqs,
                          cacheAfter = cacheAdd (cacheCapacity cfg) cache
                                         (docPrefix ctx) (docSuffix ctx) candidates \<rparr>)))"

text \<open>
  A configuration for the examples: the languages of the tests with their
  descriptors, and a tab width of 4. \<open>responding\<close> is the client of the tests
  (\<^verbatim>\<open>responses?.[requestCounter++] || { completion: '' }\<close>): the requests resolve with
  the given completions in their order, and with the empty completion after them.
\<close>

definition exampleConfig :: OrchestratorConfig where
  "exampleConfig =
     \<lparr> triggerMoreEagerly = True,
       editorTabSize = 4,
       emojiPresentation = (\<lambda>cp. cp = 0x2795),
       languageConfigs =
         (\<lambda>l. if l \<in> set [js ''typescript'', js ''java'', js ''csharp'', js ''cpp'', js ''c'']
              then Some braceLanguage
              else if l = js ''python'' then Some indentLanguage else None),
       cacheCapacity = 50 \<rparr>"

definition exampleTrigger :: "jsstring \<Rightarrow> jsstring \<Rightarrow> TriggerContext" where
  "exampleTrigger pre suf =
     \<lparr> docPrefix = pre, docSuffix = suf, languageId = js ''typescript'',
       triggerKind = Automatic, selectedCompletionInfo = None \<rparr>"

definition responding :: "jsstring list \<Rightarrow> CompletionRequest \<Rightarrow> jsstring Promise" where
  "responding rs q = Resolved (if sampling q < length rs then rs ! sampling q else [])"

section \<open>Facts about the string primitives\<close>

lemma indexOf_found: "0 \<le> indexOf s t \<Longrightarrow> prefix t (drop (nat (indexOf s t)) s)"
proof (induction s)
  case Nil
  then show ?case by (simp split: if_splits)
next
  case (Cons c cs)
  show ?case
  proof (cases "prefix t (c # cs)")
    case True
    then show ?thesis by simp
  next
    case False
    with Cons.prems have r: "0 \<le> indexOf cs t"
      by (simp add: Let_def split: if_splits)
    with False have "indexOf (c # cs) t = indexOf cs t + 1"
      by (simp add: Let_def)
    moreover have "nat (indexOf cs t + 1) = Suc (nat (indexOf cs t))"
      using r by simp
    ultimately show ?thesis using Cons.IH [OF r] by simp
  qed
qed

lemma indexOf_occurs: "prefix t (drop i s) \<Longrightarrow> i \<le> length s \<Longrightarrow> 0 \<le> indexOf s t"
proof (induction s arbitrary: i)
  case Nil
  then show ?case by simp
next
  case (Cons c cs)
  show ?case
  proof (cases i)
    case 0
    with Cons.prems show ?thesis by simp
  next
    case (Suc j)
    with Cons.prems have "0 \<le> indexOf cs t"
      using Cons.IH [of j] by simp
    then show ?thesis by (simp add: Let_def)
  qed
qed

lemma trimEnd_decomp: "s = trimEnd s @ rev (takeWhile isWhiteSpace (rev s))"
proof -
  have "trimEnd s @ rev (takeWhile isWhiteSpace (rev s))
          = rev (takeWhile isWhiteSpace (rev s) @ dropWhile isWhiteSpace (rev s))"
    unfolding trimEnd_def by (simp only: rev_append)
  also have "\<dots> = s"
    by (simp only: takeWhile_dropWhile_id rev_rev_ident)
  finally show ?thesis by (rule sym)
qed

lemma trimEnd_prefix: "prefix (trimEnd s) s"
  using trimEnd_decomp [of s] by (metis prefixI)

lemma trim_occurs: "prefix (trim s) (drop (length (takeWhile isWhiteSpace s)) s)"
proof -
  have "drop (length (takeWhile isWhiteSpace s)) s = dropWhile isWhiteSpace s"
    by (simp add: dropWhile_eq_drop)
  then show ?thesis by (simp add: trim_def trimStart_def trimEnd_prefix)
qed

lemma slice_zero: "0 \<le> e \<Longrightarrow> slice s 0 e = take (nat e) s"
  by (simp add: slice_def clampIndex_def Let_def min_def)

lemma sliceFrom_nonneg: "0 \<le> b \<Longrightarrow> sliceFrom s b = drop (nat b) s"
  by (simp add: sliceFrom_def clampIndex_def min_def)

lemma take_occurrence_drop:
  assumes "prefix t (drop k s)"
  shows "take k s @ t @ drop (k + length t) s = s"
proof -
  from assms obtain r where r: "drop k s = t @ r"
    by (auto simp: prefix_def)
  have "drop (k + length t) s = drop (length t) (drop k s)"
    by (simp add: add.commute)
  with r have "drop (k + length t) s = r" by simp
  with r show ?thesis by (metis append_take_drop_id)
qed


lemma includesStr_sublist: "includesStr s t = sublist t s"
  by (induction s) (simp_all add: sublist_Cons_right)

lemma indexOf_first: "0 \<le> indexOf s t \<Longrightarrow> j < nat (indexOf s t) \<Longrightarrow> \<not> prefix t (drop j s)"
proof (induction s arbitrary: j)
  case Nil
  then show ?case by (simp split: if_splits)
next
  case (Cons c cs)
  show ?case
  proof (cases "prefix t (c # cs)")
    case True
    with Cons.prems show ?thesis by simp
  next
    case False
    with Cons.prems have r: "0 \<le> indexOf cs t"
      by (simp add: Let_def split: if_splits)
    with False have e: "indexOf (c # cs) t = indexOf cs t + 1"
      by (simp add: Let_def)
    show ?thesis
    proof (cases j)
      case 0
      with False show ?thesis by simp
    next
      case (Suc k)
      with Cons.prems e r have "k < nat (indexOf cs t)" by simp
      with Cons.IH [OF r] Suc show ?thesis by simp
    qed
  qed
qed

lemma indexOf_absent: "indexOf s t < 0 \<longleftrightarrow> \<not> sublist t s"
proof
  assume neg: "indexOf s t < 0"
  show "\<not> sublist t s"
  proof
    assume "sublist t s"
    then obtain a b where "s = a @ t @ b" by (auto simp: sublist_def)
    then have "prefix t (drop (length a) s)" "length a \<le> length s" by simp_all
    then have "0 \<le> indexOf s t" by (rule indexOf_occurs)
    with neg show False by simp
  qed
next
  assume abs: "\<not> sublist t s"
  show "indexOf s t < 0"
  proof (rule ccontr)
    assume "\<not> indexOf s t < 0"
    then have "0 \<le> indexOf s t" by simp
    then have "prefix t (drop (nat (indexOf s t)) s)" by (rule indexOf_found)
    then obtain r where "drop (nat (indexOf s t)) s = t @ r" by (auto simp: prefix_def)
    then have "s = take (nat (indexOf s t)) s @ t @ r"
      by (metis append_take_drop_id)
    then have "sublist t s" unfolding sublist_def by blast
    with abs show False by simp
  qed
qed

lemma beforeFirst_Cons:
  "beforeFirst (c # cs) t = (if prefix t (c # cs) then [] else c # beforeFirst cs t)"
  by (simp add: beforeFirst_def Let_def nat_add_distrib)

lemma splitAcc_nonempty: "splitAcc sep acc s \<noteq> [] \<or> (sep = [] \<and> s = [])"
  by (induction sep acc s rule: splitAcc.induct) auto

lemma splitAcc_hd: "hd (splitAcc (p # ps) acc s) = rev acc @ beforeFirst s (p # ps)"
proof (induction s arbitrary: acc)
  case Nil
  then show ?case by (simp add: beforeFirst_def)
next
  case (Cons c cs)
  then show ?case by (simp add: beforeFirst_Cons)
qed

lemma join_Cons: "ys \<noteq> [] \<Longrightarrow> join (x # ys) sep = x @ sep @ join ys sep"
  by (cases ys) simp_all

lemma splitAcc_join: "join (splitAcc (p # ps) acc s) (p # ps) = rev acc @ s"
proof (induction "p # ps" acc s rule: splitAcc.induct)
  case (2 acc)
  then show ?case by simp
next
  case (3 acc c cs)
  show ?case
  proof (cases "prefix (p # ps) (c # cs)")
    case True
    then obtain r where r: "c # cs = (p # ps) @ r" by (auto simp: prefix_def)
    then have d: "drop (length ps) cs = r" by simp
    have ne: "splitAcc (p # ps) [] (drop (length ps) cs) \<noteq> []"
      using splitAcc_nonempty [of "p # ps" "[]" "drop (length ps) cs"] by simp
    have "join (splitAcc (p # ps) acc (c # cs)) (p # ps)
            = rev acc @ (p # ps) @ join (splitAcc (p # ps) [] (drop (length ps) cs)) (p # ps)"
      using True ne by (simp add: join_Cons)
    also have "\<dots> = rev acc @ (p # ps) @ r"
      using "3.hyps"(1) [OF True] d by simp
    finally show ?thesis using r by simp
  next
    case False
    then show ?thesis using "3.hyps"(2) [OF False] by (simp del: Cons_prefix_Cons)
  qed
qed

lemma split_join: "sep \<noteq> [] \<Longrightarrow> join (split s sep) sep = s"
  by (cases sep) (simp_all add: split_def splitAcc_join)

lemma join_take_drop:
  "0 < k \<Longrightarrow> k < length ls \<Longrightarrow> join (take k ls) sep @ sep @ join (drop k ls) sep = join ls sep"
proof (induction ls arbitrary: k)
  case Nil
  then show ?case by simp
next
  case (Cons x xs)
  from Cons.prems obtain j where k: "k = Suc j" by (cases k) auto
  with Cons.prems have xs: "xs \<noteq> []" by auto
  show ?case
  proof (cases j)
    case 0
    with k xs show ?thesis by (simp add: join_Cons)
  next
    case (Suc i)
    with k Cons.prems have "0 < j" "j < length xs" by simp_all
    then have ih: "join (take j xs) sep @ sep @ join (drop j xs) sep = join xs sep"
      by (rule Cons.IH)
    from Suc xs have "take j xs \<noteq> []" by (cases xs) auto
    then have "join (take k (x # xs)) sep = x @ sep @ join (take j xs) sep"
      using k by (simp add: join_Cons)
    with ih k xs show ?thesis by (simp add: join_Cons)
  qed
qed

lemma tailStartLoop_range: "- 1 \<le> tailStartLoop ls i n \<and> (tailStartLoop ls i n \<le> i \<or> i < 0)"
proof (induction ls i n rule: tailStartLoop.induct)
  case (1 ls i n)
  show ?case
  proof (cases "0 \<le> i")
    case False
    then show ?thesis by (simp add: tailStartLoop.simps)
  next
    case True
    let ?n = "if 0 < length (trim (ls ! nat i)) then n + 1 else n"
    show ?thesis
    proof (cases "2 \<le> ?n")
      case True
      with \<open>0 \<le> i\<close> show ?thesis
        by (subst (1 2) tailStartLoop.simps) (simp add: Let_def)
    next
      case False
      with \<open>0 \<le> i\<close> have e: "tailStartLoop ls i n = tailStartLoop ls (i - 1) ?n"
        by (subst tailStartLoop.simps) (simp add: Let_def)
      from "1.IH" [OF \<open>0 \<le> i\<close> refl False]
      have "- 1 \<le> tailStartLoop ls (i - 1) ?n \<and>
            (tailStartLoop ls (i - 1) ?n \<le> i - 1 \<or> i - 1 < 0)" .
      moreover have "i - 1 < 0 \<Longrightarrow> tailStartLoop ls (i - 1) ?n = - 1"
        by (subst tailStartLoop.simps) simp
      ultimately show ?thesis using e \<open>0 \<le> i\<close> by auto
    qed
  qed
qed

lemma tailStart_range: "- 1 \<le> tailStart ls \<and> tailStart ls < int (length ls) \<or> ls = []"
  using tailStartLoop_range [of ls "int (length ls) - 1" 0]
  by (auto simp: tailStart_def)

lemma untrimmed_trimSpace: "untrimmed (trimSpace s) = s"
proof -
  let ?t = "trim s"
  let ?h = "indexOf s ?t"
  have occ: "0 \<le> ?h"
    using trim_occurs [of s] by (rule indexOf_occurs) (rule length_takeWhile_le)
  then have pre: "prefix ?t (drop (nat ?h) s)"
    by (rule indexOf_found)
  have "leadSpace (trimSpace s) = take (nat ?h) s"
    using occ by (simp add: trimSpace_def Let_def slice_zero)
  moreover have "rearSpace (trimSpace s) = drop (nat ?h + length ?t) s"
    using occ by (simp add: trimSpace_def Let_def sliceFrom_nonneg nat_add_distrib)
  moreover have "trimmed (trimSpace s) = ?t"
    by (simp add: trimSpace_def Let_def)
  ultimately show ?thesis
    using take_occurrence_drop [OF pre] by (simp add: untrimmed_def)
qed

lemma tags_nonempty: "OPENING_CODE_TAG \<noteq> []" "CLOSING_CODE_TAG \<noteq> []"
  by (simp_all add: OPENING_CODE_TAG_def CLOSING_CODE_TAG_def js_def)

lemma beforeFirst_prefix: "prefix (beforeFirst s t) s"
  by (simp add: beforeFirst_def take_is_prefix)

lemma sublist_early:
  assumes "sublist t (u @ butlast t)" and "t \<noteq> []"
  shows "\<exists>j<length u. prefix t (drop j (u @ butlast t))"
proof -
  from assms(1) obtain a b where ab: "u @ butlast t = a @ t @ b"
    by (auto simp: sublist_def)
  then have "length (u @ butlast t) = length (a @ t @ b)" by simp
  with assms(2) have "length a < length u" by (cases t rule: rev_cases) auto
  moreover have "prefix t (drop (length a) (u @ butlast t))"
    by (simp only: ab) simp
  ultimately show ?thesis by blast
qed

lemma beforeFirst_no_earlier:
  assumes "t \<noteq> []" and "sublist t s"
  shows "\<not> sublist t (beforeFirst s t @ butlast t)"
proof
  let ?i = "nat (indexOf s t)"
  assume sub: "sublist t (beforeFirst s t @ butlast t)"
  from assms(2) have i: "0 \<le> indexOf s t"
    using indexOf_absent [of s t] by simp
  then have bf: "beforeFirst s t = take ?i s" by (simp add: beforeFirst_def)
  from indexOf_found [OF i] obtain r where r: "drop ?i s = t @ r"
    by (auto simp: prefix_def)
  have s: "s = take ?i s @ t @ r"
    using r by (metis append_take_drop_id)
  from sublist_early [OF sub assms(1)] obtain j
    where j: "j < length (take ?i s)" "prefix t (drop j (take ?i s @ butlast t))"
    by (auto simp: bf)
  have "prefix (take ?i s @ butlast t) (take ?i s @ t @ r)"
    by (simp add: prefixeq_butlast)
  with s have "prefix (take ?i s @ butlast t) s" by simp
  then obtain q where q: "s = (take ?i s @ butlast t) @ q" by (auto simp: prefix_def)
  define u where "u = take ?i s @ butlast t"
  have "j \<le> length u" using j(1) by (auto simp: u_def min_def)
  then have "drop j (u @ q) = drop j u @ q" by simp
  then have "drop j s = drop j u @ q" using q by (simp only: u_def)
  moreover have "prefix t (drop j u)" using j(2) by (simp only: u_def)
  ultimately have "prefix t (drop j s)" by (simp only: prefix_prefix)
  moreover from j(1) have "j < ?i" by simp
  ultimately show False using indexOf_first [OF i] by blast
qed

lemma trimEnd_last: "trimEnd s = [] \<or> \<not> isWhiteSpace (last (trimEnd s))"
proof (cases "dropWhile isWhiteSpace (rev s)")
  case Nil
  then show ?thesis by (simp add: trimEnd_def)
next
  case (Cons x xs)
  then have "\<not> isWhiteSpace x" by (metis dropWhile_eq_Cons_conv)
  with Cons show ?thesis by (simp add: trimEnd_def)
qed

lemma trimEnd_removed: "\<forall>ch \<in> set (rev (takeWhile isWhiteSpace (rev s))). isWhiteSpace ch"
  by (auto dest: set_takeWhileD)

lemma extractFromCodeBlock_eq:
  "extractFromCodeBlock c =
     (if sublist OPENING_CODE_TAG c then [] else trimEnd (beforeFirst c CLOSING_CODE_TAG))"
proof -
  obtain p ps where t: "CLOSING_CODE_TAG = p # ps"
    using tags_nonempty(2) by (cases CLOSING_CODE_TAG) auto
  have ne: "split c CLOSING_CODE_TAG \<noteq> []"
    using splitAcc_nonempty [of "p # ps" "[]" c] by (simp add: split_def t)
  have "hd (split c CLOSING_CODE_TAG) = beforeFirst c CLOSING_CODE_TAG"
    using splitAcc_hd [of p ps "[]" c] by (simp add: split_def t)
  with ne show ?thesis
    by (cases "split c CLOSING_CODE_TAG") (simp_all add: extractFromCodeBlock_def includesStr_sublist)
qed

lemma trimEnd_Nil_iff: "trimEnd s = [] \<longleftrightarrow> list_all isWhiteSpace s"
  by (simp add: trimEnd_def dropWhile_eq_Nil_conv list_all_iff)

lemma trim_Nil_iff: "trim s = [] \<longleftrightarrow> isBlank s"
proof -
  have "trim s = [] \<longleftrightarrow> list_all isWhiteSpace (dropWhile isWhiteSpace s)"
    by (simp add: trim_def trimStart_def trimEnd_Nil_iff)
  also have "\<dots> \<longleftrightarrow> list_all isWhiteSpace s"
  proof
    assume a: "list_all isWhiteSpace (dropWhile isWhiteSpace s)"
    have "set s = set (takeWhile isWhiteSpace s) \<union> set (dropWhile isWhiteSpace s)"
      by (metis set_append takeWhile_dropWhile_id)
    with a show "list_all isWhiteSpace s"
      by (auto simp: list_all_iff dest: set_takeWhileD)
  next
    assume "list_all isWhiteSpace s"
    then show "list_all isWhiteSpace (dropWhile isWhiteSpace s)"
      by (auto simp: list_all_iff dest: set_dropWhileD)
  qed
  finally show ?thesis by (simp add: isBlank_def)
qed

lemma firstNonEmptyLine_find:
  "firstNonEmptyLine ls = (case find (\<lambda>l. \<not> isBlank l) ls of None \<Rightarrow> [] | Some l \<Rightarrow> l)"
  by (induction ls) (simp_all add: trim_Nil_iff [symmetric])

lemma find_nonblank_nonempty: "find (\<lambda>l. \<not> isBlank l) ls = Some l \<Longrightarrow> l \<noteq> []"
  by (auto simp: find_Some_iff isBlank_def)

lemma getFirstN_window:
  "getFirstNCharsPreservingLeadingSpaces l NUMBER_OF_CHARS_TO_MATCH_AND_CUT_SUFFIX = lineWindow l"
proof -
  let ?k = "length (takeWhile isWhiteSpace l)"
  have "getFirstNCharsPreservingLeadingSpaces l NUMBER_OF_CHARS_TO_MATCH_AND_CUT_SUFFIX
          = take (?k + 15) l"
    by (simp add: getFirstNCharsPreservingLeadingSpaces_def searchNonWhitespace_def
        NUMBER_OF_CHARS_TO_MATCH_AND_CUT_SUFFIX_def Let_def slice_zero nat_add_distrib)
  also have "\<dots> = take (?k + 15) (takeWhile isWhiteSpace l @ dropWhile isWhiteSpace l)"
    by simp
  also have "\<dots> = takeWhile isWhiteSpace l @ take 15 (dropWhile isWhiteSpace l)"
    by (simp only: take_append) simp
  finally show ?thesis by (simp add: lineWindow_def)
qed

lemma lastIndexOf_single: "0 \<le> lastIndexOf s [c] \<longleftrightarrow> c \<in> set s"
  by (induction s) (auto simp: Let_def)

lemma takeWhile_rev_snoc:
  "c \<notin> set xs \<Longrightarrow>
   rev (takeWhile (\<lambda>x. x \<noteq> c) (rev xs @ [x])) = (if x = c then xs else x # xs)"
proof -
  assume "c \<notin> set xs"
  then have "takeWhile (\<lambda>x. x \<noteq> c) (rev xs @ [x]) = rev xs @ takeWhile (\<lambda>x. x \<noteq> c) [x]"
    by (intro takeWhile_append2) auto
  then show ?thesis by simp
qed

lemma afterLast_slice:
  "sliceFrom s (lastIndexOf s [c] + 1) = rev (takeWhile (\<lambda>x. x \<noteq> c) (rev s))"
proof (induction s)
  case Nil
  then show ?case by (simp add: sliceFrom_def clampIndex_def)
next
  case (Cons x xs)
  show ?case
  proof (cases "c \<in> set xs")
    case True
    then have r: "0 \<le> lastIndexOf xs [c]" by (simp add: lastIndexOf_single)
    then have "lastIndexOf (x # xs) [c] = lastIndexOf xs [c] + 1" by (simp add: Let_def)
    then have "sliceFrom (x # xs) (lastIndexOf (x # xs) [c] + 1) = sliceFrom xs (lastIndexOf xs [c] + 1)"
      using r by (simp add: sliceFrom_nonneg nat_add_distrib)
    moreover have "takeWhile (\<lambda>x. x \<noteq> c) (rev xs @ [x]) = takeWhile (\<lambda>x. x \<noteq> c) (rev xs)"
      using True by (intro takeWhile_append1 [of c]) auto
    ultimately show ?thesis using Cons.IH by simp
  next
    case False
    then have r: "\<not> 0 \<le> lastIndexOf xs [c]" by (simp add: lastIndexOf_single)
    have l: "lastIndexOf (x # xs) [c] = (if x = c then 0 else - 1)"
      using r by (simp add: Let_def)
    have "sliceFrom (x # xs) (lastIndexOf (x # xs) [c] + 1) = (if x = c then xs else x # xs)"
      unfolding l by (simp add: sliceFrom_def clampIndex_def)
    also have "\<dots> = rev (takeWhile (\<lambda>x. x \<noteq> c) (rev xs @ [x]))"
      using False by (rule takeWhile_rev_snoc [symmetric])
    finally show ?thesis by simp
  qed
qed

lemma alignedLines_length: "length (alignedLines pre ls) = length ls"
  by (simp add: alignedLines_def split: list.splits)

lemma alignedLines_nth:
  "i < length ls \<Longrightarrow>
   alignedLines pre ls ! i
     = (if i = 0 then sliceFrom pre (lastIndexOf pre [LF] + 1) @ ls ! i else ls ! i)"
  by (cases ls; cases i) (simp_all add: alignedLines_def afterLast_slice afterLastLineFeed_def)

lemma insertionEndLoop_takeWhile:
  "i \<le> length ls \<Longrightarrow>
   insertionEndLoop ls pre (lineWindow sl) i
     = i + length (takeWhile (\<lambda>l. \<not> windowMatches sl l) (drop i (alignedLines pre ls)))"
proof (induction ls pre "lineWindow sl" i rule: insertionEndLoop.induct)
  case (1 ls pre i)
  show ?case
  proof (cases "i < length ls")
    case False
    with "1.prems" have "i = length ls" by simp
    then show ?thesis by (subst insertionEndLoop.simps) (simp add: alignedLines_length)
  next
    case True
    define line where
      "line = (if i = 0 then sliceFrom pre (lastIndexOf pre [LF] + 1) @ ls ! i else ls ! i)"
    have al: "alignedLines pre ls ! i = line"
      using True by (simp only: line_def alignedLines_nth)
    have dr: "drop i (alignedLines pre ls) = line # drop (Suc i) (alignedLines pre ls)"
      using True al Cons_nth_drop_Suc [of i "alignedLines pre ls"]
      by (simp add: alignedLines_length)
    have step: "insertionEndLoop ls pre (lineWindow sl) i
                  = (if windowMatches sl line then i
                     else insertionEndLoop ls pre (lineWindow sl) (i + 1))"
      using True
      by (subst insertionEndLoop.simps)
         (simp only: line_def [symmetric] Let_def getFirstN_window windowMatches_def
            startsWith_def length_0_conv if_True)
    show ?thesis
    proof (cases "windowMatches sl line")
      case True
      with step dr show ?thesis by simp
    next
      case False
      then have nm: "\<not> (length (lineWindow line) \<noteq> 0 \<and> startsWith (lineWindow sl) (lineWindow line))"
        by (simp add: windowMatches_def startsWith_def)
      have "insertionEndLoop ls pre (lineWindow sl) (i + 1)
              = (i + 1) + length (takeWhile (\<lambda>l. \<not> windowMatches sl l)
                                    (drop (i + 1) (alignedLines pre ls)))"
      proof (rule "1.hyps" [OF True refl refl])
        show "\<not> (length (getFirstNCharsPreservingLeadingSpaces
                (if i = 0 then sliceFrom pre (lastIndexOf pre [LF] + 1) @ ls ! i else ls ! i)
                NUMBER_OF_CHARS_TO_MATCH_AND_CUT_SUFFIX) \<noteq> 0 \<and>
              startsWith (lineWindow sl) (getFirstNCharsPreservingLeadingSpaces
                (if i = 0 then sliceFrom pre (lastIndexOf pre [LF] + 1) @ ls ! i else ls ! i)
                NUMBER_OF_CHARS_TO_MATCH_AND_CUT_SUFFIX))"
          using nm unfolding line_def getFirstN_window .
        show "i + 1 \<le> length ls" using True by simp
      qed
      with step False dr show ?thesis by simp
    qed
  qed
qed

lemma trimUntilSuffix_refines: "trimUntilSuffix insertion pre suf = trimUntilSuffix_spec insertion pre suf"
proof (cases "find (\<lambda>l. \<not> isBlank l) (split suf [LF])")
  case None
  then show ?thesis
    by (simp add: trimUntilSuffix_def trimUntilSuffix_spec_def firstNonEmptyLine_find Let_def)
next
  case (Some sl)
  then have ne: "sl \<noteq> []" by (rule find_nonblank_nonempty)
  let ?ls = "split (trimEnd insertion) [LF]"
  have "insertionEndLoop ?ls pre (lineWindow sl) 0
          = length (takeWhile (\<lambda>l. \<not> windowMatches sl l) (alignedLines pre ?ls))"
    using insertionEndLoop_takeWhile [of 0 ?ls pre sl] by simp
  with Some ne show ?thesis
    by (simp add: trimUntilSuffix_def trimUntilSuffix_spec_def firstNonEmptyLine_find Let_def
        getFirstN_window slice_zero)
qed

subsection \<open>The matcher of \<open>fixBadCompletionStart\<close>\<close>

lemma matchBadStartFrom_Cons:
  "matchBadStartFrom ep (r # rs)
     = (case matchRest ep r of Some rest \<Rightarrow> Some rest | None \<Rightarrow> matchBadStartFrom ep rs)"
  by (simp add: matchRest_def split: option.splits)

lemma matchBadStartFrom_same:
  "rs \<noteq> [] \<Longrightarrow> \<forall>x \<in> set rs. x = r \<Longrightarrow> matchBadStartFrom ep rs = matchRest ep r"
proof (induction rs)
  case Nil
  then show ?case by simp
next
  case (Cons x xs)
  then have x: "x = r" and all: "\<forall>x \<in> set xs. x = r" by simp_all
  have step: "matchBadStartFrom ep (x # xs)
     = (case matchRest ep r of Some rest \<Rightarrow> Some rest | None \<Rightarrow> matchBadStartFrom ep xs)"
    unfolding x by (rule matchBadStartFrom_Cons)
  show ?case
  proof (cases "matchRest ep r")
    case (Some z)
    with step show ?thesis by simp
  next
    case None
    with step have e: "matchBadStartFrom ep (x # xs) = matchBadStartFrom ep xs" by simp
    show ?thesis
    proof (cases "xs = []")
      case True
      with e None show ?thesis by simp
    next
      case False
      with Cons.IH all have "matchBadStartFrom ep xs = matchRest ep r" by blast
      with e show ?thesis by simp
    qed
  qed
qed

lemma matchBadStartFrom_Some:
  "matchBadStartFrom ep rs = Some y \<Longrightarrow> \<exists>r \<in> set rs. matchRest ep r = Some y"
proof (induction rs)
  case Nil
  then show ?case by simp
next
  case (Cons x xs)
  show ?case
  proof (cases "matchRest ep x")
    case None
    with Cons.prems have "matchBadStartFrom ep xs = Some y"
      by (simp only: matchBadStartFrom_Cons option.case)
    with Cons.IH show ?thesis by auto
  next
    case (Some z)
    with Cons.prems have "z = y" by (simp only: matchBadStartFrom_Cons option.case option.inject)
    with Some show ?thesis by simp
  qed
qed

lemma ws_not_surrogate: "isWhiteSpace c \<Longrightarrow> \<not> isHighSurrogate c \<and> \<not> isLowSurrogate c"
  unfolding isWhiteSpace_def isHighSurrogate_def isLowSurrogate_def
  by (elim disjE conjE) (simp_all, unat_arith+)


lemma nextCodePoint_single:
  "\<not> isHighSurrogate c \<Longrightarrow> nextCodePoint (c # r) = Some (unat c, r)"
  by (cases r) simp_all

lemma codePoint_large: "0x10000 \<le> codePoint hi lo"
  by (simp add: codePoint_def)

lemma ascii_not_surrogate:
  "\<not> isHighSurrogate 0x200B" "\<not> isHighSurrogate 0x2B" "\<not> isHighSurrogate 0x2D"
  "\<not> isHighSurrogate 0x2E"
  by (simp_all add: isHighSurrogate_def)

lemma zwsp_not_space: "\<not> isWhiteSpace 0x200B"
  by (simp add: isWhiteSpace_def)

lemma isBadToken_cases:
  assumes "isBadToken ep t"
  obtains (unit) c where "t = [c]" "\<not> isHighSurrogate c" "\<not> isLowSurrogate c" "ep (unat c)"
    | (pair) hi lo where "t = [hi, lo]" "isHighSurrogate hi" "isLowSurrogate lo" "ep (codePoint hi lo)"
    | (zwsp) "t = [0x200B]"
    | (plus) "t = js ''+ ''"
    | (minus) "t = js ''- ''"
    | (dot) "t = js ''. ''"
  using assms unfolding isBadToken_def by (auto split: list.splits)

lemma matchBadToken_token:
  assumes ok: "emojiTableOk ep" and tok: "isBadToken ep t"
  shows "matchBadToken ep (t @ r) \<noteq> [] \<and> (\<forall>x \<in> set (matchBadToken ep (t @ r)). x = r)"
  using tok
proof (cases rule: isBadToken_cases)
  case (unit c)
  from unit(4) ok have "c \<noteq> 0x2B" "c \<noteq> 0x2D" "c \<noteq> 0x2E"
    by (auto simp: emojiTableOk_def)
  then have "matchLiteral (js ''+ '') (c # r) = []" "matchLiteral (js ''- '') (c # r) = []"
    "matchLiteral (js ''. '') (c # r) = []"
    by (simp_all add: js_def matchLiteral_def)
  with unit show ?thesis
    by (simp add: matchBadToken_def matchCodePoint_def nextCodePoint_single)
next
  case (pair hi lo)
  from pair(2) have "hi \<noteq> 0x2B" "hi \<noteq> 0x2D" "hi \<noteq> 0x2E"
    using ascii_not_surrogate by auto
  then have "matchLiteral (js ''+ '') (hi # lo # r) = []" "matchLiteral (js ''- '') (hi # lo # r) = []"
    "matchLiteral (js ''. '') (hi # lo # r) = []"
    by (simp_all add: js_def matchLiteral_def)
  moreover have "codePoint hi lo \<noteq> 0x200B" using codePoint_large [of hi lo] by simp
  ultimately show ?thesis using pair
    by (simp add: matchBadToken_def matchCodePoint_def)
next
  case zwsp
  have "matchLiteral (js ''+ '') (0x200B # r) = []" "matchLiteral (js ''- '') (0x200B # r) = []"
    "matchLiteral (js ''. '') (0x200B # r) = []"
    by (simp_all add: js_def matchLiteral_def)
  with zwsp show ?thesis
    by (simp add: matchBadToken_def matchCodePoint_def nextCodePoint_single ascii_not_surrogate)
next
  case plus
  from ok have "\<not> ep 0x2B" by (simp add: emojiTableOk_def)
  with plus show ?thesis
    by (simp add: matchBadToken_def matchCodePoint_def nextCodePoint_single ascii_not_surrogate
        js_def matchLiteral_def)
next
  case minus
  from ok have "\<not> ep 0x2D" by (simp add: emojiTableOk_def)
  with minus show ?thesis
    by (simp add: matchBadToken_def matchCodePoint_def nextCodePoint_single ascii_not_surrogate
        js_def matchLiteral_def)
next
  case dot
  from ok have "\<not> ep 0x2E" by (simp add: emojiTableOk_def)
  with dot show ?thesis
    by (simp add: matchBadToken_def matchCodePoint_def nextCodePoint_single ascii_not_surrogate
        js_def matchLiteral_def)
qed

lemma matchBadToken_space:
  assumes ok: "emojiTableOk ep" and ws: "isWhiteSpace c"
  shows "matchBadToken ep (c # r) = []"
proof -
  from ws have ns: "\<not> isHighSurrogate c" by (simp add: ws_not_surrogate)
  from ws ok have "\<not> ep (unat c)" by (auto simp: emojiTableOk_def)
  moreover have "unat c \<noteq> 0x200B"
  proof
    assume "unat c = 0x200B"
    then have "c = 0x200B" by (simp add: word_unat_eq_iff)
    with ws zwsp_not_space show False by simp
  qed
  moreover from ws have "c \<noteq> 0x2B" "c \<noteq> 0x2D" "c \<noteq> 0x2E"
    by (auto simp: isWhiteSpace_def)
  then have "matchLiteral (js ''+ '') (c # r) = []" "matchLiteral (js ''- '') (c # r) = []"
    "matchLiteral (js ''. '') (c # r) = []"
    by (simp_all add: js_def matchLiteral_def)
  ultimately show ?thesis
    by (simp add: matchBadToken_def matchCodePoint_def nextCodePoint_single ns)
qed


lemma matchSpaces_run:
  "w \<noteq> [] \<Longrightarrow> list_all isWhiteSpace w \<Longrightarrow>
   matchSpaces (w @ r) = Some (dropWhile isWhiteSpace r)"
  by (cases w) (auto simp: matchSpaces_def list_all_iff dropWhile_append2)

lemma matchBadStart_space:
  assumes "emojiTableOk ep" and "w \<noteq> []" and "list_all isWhiteSpace w"
  shows "matchBadStart ep (w @ r) = None"
proof -
  from assms(2,3) obtain c w' where "w = c # w'" "isWhiteSpace c" by (cases w) auto
  with assms(1) have "matchBadToken ep (w @ r) = []" by (simp add: matchBadToken_space)
  then show ?thesis by (simp add: matchBadStart.simps)
qed

lemma matchBadStart_step:
  assumes "emojiTableOk ep" and "isBadToken ep t"
  shows "matchBadStart ep (t @ r) = matchRest ep r"
proof -
  from matchBadToken_token [OF assms, of r]
  have "matchBadToken ep (t @ r) \<noteq> []" "\<forall>x \<in> set (matchBadToken ep (t @ r)). x = r"
    by simp_all
  then show ?thesis
    unfolding matchBadStart.simps(1) [of ep "t @ r"] by (rule matchBadStartFrom_same)
qed

lemma matchBadStart_run:
  assumes ok: "emojiTableOk ep"
    and "ts \<noteq> []" and "\<forall>t \<in> set ts. isBadToken ep t"
    and w: "w \<noteq> []" "list_all isWhiteSpace w"
  shows "matchBadStart ep (concat ts @ w @ r) = Some (dropWhile isWhiteSpace r)"
  using assms(2,3)
proof (induction ts rule: list_nonempty_induct)
  case (single t)
  then have "isBadToken ep t" by simp
  then show ?case
    using matchBadStart_step [OF ok, of t "w @ r"] matchBadStart_space [OF ok w, of r]
      matchSpaces_run [OF w, of r]
    by (simp add: matchRest_def)
next
  case (cons t ts)
  then have "isBadToken ep t" and "matchBadStart ep (concat ts @ w @ r) = Some (dropWhile isWhiteSpace r)"
    by simp_all
  then show ?case
    using matchBadStart_step [OF ok, of t "concat ts @ w @ r"] by (simp add: matchRest_def)
qed

lemma unat_zwsp: "unat (c :: jschar) = 0x200B \<Longrightarrow> c = 0x200B"
  by (simp add: word_unat_eq_iff)

lemma matchCodePoint_ep_sound:
  assumes ok: "emojiTableOk ep" and "r \<in> set (matchCodePoint ep s)"
  shows "\<exists>t. isBadToken ep t \<and> s = t @ r"
proof (cases s rule: nextCodePoint.cases)
  case 1
  with assms(2) show ?thesis by (simp add: matchCodePoint_def)
next
  case (2 c)
  with assms(2) have "ep (unat c)" "r = []"
    by (auto simp: matchCodePoint_def split: if_splits)
  with ok have "isBadToken ep [c]" by (auto simp: isBadToken_def emojiTableOk_def)
  with 2 \<open>r = []\<close> show ?thesis by auto
next
  case (3 c d r')
  show ?thesis
  proof (cases "isHighSurrogate c \<and> isLowSurrogate d")
    case True
    with 3 assms(2) have "ep (codePoint c d)" "r = r'"
      by (auto simp: matchCodePoint_def split: if_splits)
    with True have "isBadToken ep [c, d]" by (simp add: isBadToken_def)
    with 3 \<open>r = r'\<close> show ?thesis by auto
  next
    case False
    with 3 assms(2) have "ep (unat c)" "r = d # r'"
      by (auto simp: matchCodePoint_def split: if_splits)
    with ok have "isBadToken ep [c]" by (auto simp: isBadToken_def emojiTableOk_def)
    with 3 \<open>r = d # r'\<close> show ?thesis by auto
  qed
qed

lemma matchCodePoint_zwsp_sound:
  assumes "r \<in> set (matchCodePoint (\<lambda>cp. cp = 0x200B) s)"
  shows "s = [0x200B] @ r"
proof (cases s rule: nextCodePoint.cases)
  case 1
  with assms show ?thesis by (simp add: matchCodePoint_def)
next
  case (2 c)
  with assms show ?thesis
    by (auto simp: matchCodePoint_def unat_zwsp split: if_splits)
next
  case (3 c d r')
  have "codePoint c d \<noteq> 0x200B" using codePoint_large [of c d] by simp
  with 3 assms show ?thesis
    by (auto simp: matchCodePoint_def unat_zwsp split: if_splits)
qed

lemma matchLiteral_sound: "r \<in> set (matchLiteral lit s) \<Longrightarrow> s = lit @ r"
  by (auto simp: matchLiteral_def prefix_def split: if_splits)

lemma matchBadToken_sound:
  assumes ok: "emojiTableOk ep" and "r \<in> set (matchBadToken ep s)"
  shows "\<exists>t. isBadToken ep t \<and> s = t @ r"
proof -
  from assms(2) consider
      "r \<in> set (matchCodePoint ep s)"
    | "r \<in> set (matchCodePoint (\<lambda>cp. cp = 0x200B) s)"
    | "r \<in> set (matchLiteral (js ''+ '') s)"
    | "r \<in> set (matchLiteral (js ''- '') s)"
    | "r \<in> set (matchLiteral (js ''. '') s)"
    by (auto simp: matchBadToken_def)
  then show ?thesis
  proof cases
    case 1
    with ok show ?thesis by (rule matchCodePoint_ep_sound)
  next
    case 2
    then have "s = [0x200B] @ r" by (rule matchCodePoint_zwsp_sound)
    moreover have "isBadToken ep [0x200B]" by (simp add: isBadToken_def)
    ultimately show ?thesis by blast
  next
    case 3
    then have "s = js ''+ '' @ r" by (rule matchLiteral_sound)
    moreover have "isBadToken ep (js ''+ '')" by (simp add: isBadToken_def)
    ultimately show ?thesis by blast
  next
    case 4
    then have "s = js ''- '' @ r" by (rule matchLiteral_sound)
    moreover have "isBadToken ep (js ''- '')" by (simp add: isBadToken_def)
    ultimately show ?thesis by blast
  next
    case 5
    then have "s = js ''. '' @ r" by (rule matchLiteral_sound)
    moreover have "isBadToken ep (js ''. '')" by (simp add: isBadToken_def)
    ultimately show ?thesis by blast
  qed
qed

lemma matchSpaces_sound:
  "matchSpaces s = Some x \<Longrightarrow>
   \<exists>w. w \<noteq> [] \<and> list_all isWhiteSpace w \<and> s = w @ x"
proof -
  assume a: "matchSpaces s = Some x"
  then obtain c r where s: "s = c # r" "isWhiteSpace c" "x = dropWhile isWhiteSpace s"
    by (auto simp: matchSpaces_def split: list.splits if_splits)
  let ?w = "takeWhile isWhiteSpace s"
  have "?w \<noteq> []" using s by simp
  moreover have "list_all isWhiteSpace ?w" by (auto simp: list_all_iff dest: set_takeWhileD)
  moreover have "s = ?w @ x" using s(3) by simp
  ultimately show ?thesis by blast
qed

lemma matchBadStart_sound:
  assumes ok: "emojiTableOk ep"
  shows "matchBadStart ep s = Some x \<Longrightarrow>
    \<exists>ts w. ts \<noteq> [] \<and> (\<forall>t \<in> set ts. isBadToken ep t) \<and> w \<noteq> [] \<and> list_all isWhiteSpace w
       \<and> s = concat ts @ w @ x"
proof (induction s rule: length_induct)
  case (1 s)
  from "1.prems" obtain r0 where r0: "r0 \<in> set (matchBadToken ep s)"
    and f: "matchRest ep r0 = Some x"
    unfolding matchBadStart.simps(1) [of ep s] by (blast dest: matchBadStartFrom_Some)
  from matchBadToken_sound [OF ok r0] obtain t where t: "isBadToken ep t" "s = t @ r0" by blast
  from r0 have short: "length r0 < length s" by (rule matchBadToken_shorter)
  show ?case
  proof (cases "matchBadStart ep r0")
    case None
    with f have "matchSpaces r0 = Some x" by (simp add: matchRest_def)
    then obtain w where "w \<noteq> []" "list_all isWhiteSpace w" "r0 = w @ x"
      using matchSpaces_sound by blast
    with t have "[t] \<noteq> [] \<and> (\<forall>u \<in> set [t]. isBadToken ep u) \<and> w \<noteq> [] \<and> list_all isWhiteSpace w
       \<and> s = concat [t] @ w @ x" by simp
    then show ?thesis by blast
  next
    case (Some y)
    with f have "matchBadStart ep r0 = Some x" by (simp add: matchRest_def)
    with "1.IH" short obtain ts w where
      "ts \<noteq> []" "\<forall>u \<in> set ts. isBadToken ep u" "w \<noteq> []" "list_all isWhiteSpace w"
      "r0 = concat ts @ w @ x" by blast
    with t have "t # ts \<noteq> [] \<and> (\<forall>u \<in> set (t # ts). isBadToken ep u) \<and> w \<noteq> []
       \<and> list_all isWhiteSpace w \<and> s = concat (t # ts) @ w @ x" by simp
    then show ?thesis by blast
  qed
qed

subsection \<open>Ranking and deduplication\<close>

lemma set_dedupe: "set (dedupe cs) = set cs"
  by (induction cs rule: dedupe.induct) auto

lemma sorted_wrt_dedupe: "sorted_wrt P cs \<Longrightarrow> sorted_wrt P (dedupe cs)"
proof (induction cs rule: dedupe.induct)
  case 1
  then show ?case by simp
next
  case (2 c cs)
  from "2.prems" have "sorted_wrt P (filter (\<lambda>d. d \<noteq> c) cs)"
    by (simp add: sorted_wrt_filter)
  then have "sorted_wrt P (dedupe (filter (\<lambda>d. d \<noteq> c) cs))" by (rule "2.IH")
  moreover from "2.prems" have "\<forall>x \<in> set (dedupe (filter (\<lambda>d. d \<noteq> c) cs)). P c x"
    by (simp add: set_dedupe)
  ultimately show ?case by simp
qed

lemma filter_dedupe: "filter P (dedupe cs) = dedupe (filter P cs)"
proof (induction cs rule: dedupe.induct)
  case 1
  then show ?case by simp
next
  case (2 c cs)
  have comm: "filter P (filter (\<lambda>d. d \<noteq> c) cs) = filter (\<lambda>d. d \<noteq> c) (filter P cs)"
    by (simp add: conj_commute)
  show ?case
  proof (cases "P c")
    case True
    with "2.IH" comm show ?thesis by simp
  next
    case False
    then have "filter P (filter (\<lambda>d. d \<noteq> c) cs) = filter P cs"
      by (auto intro: filter_cong)
    with False "2.IH" show ?thesis by simp
  qed
qed

lemma rankCompletions_sorted: "sorted_wrt (\<lambda>a b. lineCount b \<le> lineCount a) (rankCompletions cs)"
proof -
  have "sorted (map (\<lambda>c. - int (lineCount c)) (rankCompletions cs))"
    unfolding rankCompletions_def by (rule sorted_sort_key)
  then show ?thesis by (simp add: sorted_map)
qed

lemma rankCompletions_stable:
  "filter (\<lambda>c. lineCount c = n) (rankCompletions cs) = filter (\<lambda>c. lineCount c = n) cs"
  using sort_key_stable [of "\<lambda>c. - int (lineCount c)" "- int n" cs]
  by (simp add: rankCompletions_def)

subsection \<open>The truncation walk\<close>











subsection \<open>The cache and the branches of the orchestrator\<close>











subsection \<open>The tests of the completion provider\<close>

text \<open>
  The model at the inputs of tests of \<^verbatim>\<open>completion.test.ts\<close>, after the indentation that
  the helper \<^verbatim>\<open>truncateMultilineString\<close> removes from the documents and the responses
  of the tests: the entry point issues the number of requests and returns the
  insertion texts that the tests expect.
\<close>

text \<open>\<^verbatim>\<open>triggers a multi-line completion at the start of a block\<close>\<close>

lemma test_start_of_block:
  "length (requests
      (provideInlineCompletionItems exampleConfig
       (responding []) []
       (exampleTrigger (js ''function bubbleSort() {'' @ [LF] @ js ''  '') []))) = 3"
  by code_simp

text \<open>\<^verbatim>\<open>requires an indentation to start a block\<close>\<close>

lemma test_requires_indentation:
  "length (requests
      (provideInlineCompletionItems exampleConfig
       (responding []) []
       (exampleTrigger (js ''function bubbleSort() {'' @ [LF]) []))) = 1"
  by code_simp

text \<open>\<^verbatim>\<open>should trigger a request if the suffix of the same line is only special tags\<close>\<close>

lemma test_special_tags:
  "length (requests
      (provideInlineCompletionItems exampleConfig
       (responding []) []
       (exampleTrigger (js ''if('') (js '') {'')))) = 3"
  by code_simp

text \<open>\<^verbatim>\<open>only complete one line in single line mode\<close>\<close>

lemma test_one_line_single:
  "outcome
      (provideInlineCompletionItems exampleConfig
       (responding [(js ''if (true) {'' @ [LF] @ js ''        console.log(3);'' @ [LF] @ js ''    }'' @ [LF] @ js ''    console.log(4);'')]) []
       (exampleTrigger (js ''function test() {'' @ [LF] @ js ''    console.log(1);'' @ [LF] @ js ''    '') ([LF] @ js ''}'' @ [LF])))
    = Returned [(js ''if (true) {'')]"
  by code_simp

text \<open>\<^verbatim>\<open>keeps the closing bracket\<close>\<close>

lemma test_keeps_closing_bracket:
  "outcome
      (provideInlineCompletionItems exampleConfig
       (responding [(js '' {'' @ [LF] @ js ''    console.log('Hello');'' @ [LF] @ js ''}'')]) []
       (exampleTrigger (js ''function printHello('') (js '')'')))
    = Returned [(js '' {'' @ [LF] @ js ''    console.log('Hello');'' @ [LF] @ js ''}'')]"
  by code_simp

text \<open>\<^verbatim>\<open>uses an indentation based approach to cut-off completions\<close>\<close>

lemma test_indentation_based:
  "outcome
      (provideInlineCompletionItems exampleConfig
       (responding [(js ''console.log('foo')'' @ [LF] @ js ''    }'' @ [LF] @ [LF] @ js ''    add() {'' @ [LF] @ js ''        console.log('bar')'' @ [LF] @ js ''    }''),
          (js ''if (foo) {'' @ [LF] @ js ''            console.log('foo1');'' @ [LF] @ js ''        }'' @ [LF] @ js ''    }'' @ [LF] @ [LF] @ js ''    add() {'' @ [LF] @ js ''        console.log('bar')'' @ [LF] @ js ''    }'')]) []
       (exampleTrigger (js ''class Foo {'' @ [LF] @ js ''    constructor() {'' @ [LF] @ js ''        '') ([LF] @ js ''    }'' @ [LF] @ js ''}'')))
    = Returned [(js ''if (foo) {'' @ [LF] @ js ''            console.log('foo1');'' @ [LF] @ js ''        }''),
        (js ''console.log('foo')'')]"
  by code_simp

text \<open>\<^verbatim>\<open>skips over else blocks\<close>\<close>

lemma test_skips_else:
  "outcome
      (provideInlineCompletionItems exampleConfig
       (responding [(js ''console.log('one')'' @ [LF] @ js ''} else {'' @ [LF] @ js ''    console.log('two')'' @ [LF] @ js ''}'')]) []
       (exampleTrigger (js ''if (check) {'' @ [LF] @ js ''    '') ([LF] @ js ''}'')))
    = Returned [(js ''console.log('one')'' @ [LF] @ js ''} else {'' @ [LF] @ js ''    console.log('two')'')]"
  by code_simp

text \<open>\<^verbatim>\<open>includes closing parentheses in the completion\<close>\<close>

lemma test_includes_closing:
  "outcome
      (provideInlineCompletionItems exampleConfig
       (responding [(js ''console.log('one')'' @ [LF] @ js ''}'')]) []
       (exampleTrigger (js ''if (check) {'' @ [LF] @ js ''    '') ([LF])))
    = Returned [(js ''console.log('one')'' @ [LF] @ js ''}'')]"
  by code_simp

text \<open>\<^verbatim>\<open>does not include block end character if there is already content in the block\<close>\<close>

lemma test_block_end_content:
  "outcome
      (provideInlineCompletionItems exampleConfig
       (responding [(js ''console.log('one')'' @ [LF] @ js ''}'')]) []
       (exampleTrigger (js ''if (check) {'' @ [LF] @ js ''    '') ([LF] @ js ''    console.log('two')'' @ [LF])))
    = Returned [(js ''console.log('one')'')]"
  by code_simp

section \<open>The round trip of \<open>trimSpace\<close>\<close>

text \<open>
  Claim C4. For every string \<open>s\<close>, the three components that \<open>trimSpace\<close> returns,
  concatenated as lead space, trimmed text and rear space, give back \<open>s\<close> exactly.
\<close>

theorem trimSpace_roundtrip:
  "leadSpace (trimSpace s) @ trimmed (trimSpace s) @ rearSpace (trimSpace s) = s"
  using untrimmed_trimSpace [of s] by (simp add: untrimmed_def)


section \<open>Head and tail of the prefix\<close>

text \<open>
  Claim C5, as stated: whenever \<open>getHeadAndTail\<close> sets no overlap, the six
  components of head and tail, concatenated, are the original string. It fails on
  the three lines \<^verbatim>\<open>a\<close>, \<^verbatim>\<open>b\<close>, \<^verbatim>\<open>c\<close>: the tail starts at the second line, head and
  tail are built with \<^verbatim>\<open>slice\<close> and \<^verbatim>\<open>join\<close>, and the line feed between them belongs
  to neither, so the concatenation is \<^verbatim>\<open>ab\<close>, line feed, \<^verbatim>\<open>c\<close>.
\<close>

theorem getHeadAndTail_reconstruct_counterexample:
  "overlap (getHeadAndTail (js ''a'' @ [LF] @ js ''b'' @ [LF] @ js ''c'')) = None \<and>
   leadSpace (head (getHeadAndTail (js ''a'' @ [LF] @ js ''b'' @ [LF] @ js ''c'')))
     @ trimmed (head (getHeadAndTail (js ''a'' @ [LF] @ js ''b'' @ [LF] @ js ''c'')))
     @ rearSpace (head (getHeadAndTail (js ''a'' @ [LF] @ js ''b'' @ [LF] @ js ''c'')))
     @ leadSpace (tail (getHeadAndTail (js ''a'' @ [LF] @ js ''b'' @ [LF] @ js ''c'')))
     @ trimmed (tail (getHeadAndTail (js ''a'' @ [LF] @ js ''b'' @ [LF] @ js ''c'')))
     @ rearSpace (tail (getHeadAndTail (js ''a'' @ [LF] @ js ''b'' @ [LF] @ js ''c'')))
   = js ''ab'' @ [LF] @ js ''c'' \<and>
   js ''ab'' @ [LF] @ js ''c'' \<noteq> js ''a'' @ [LF] @ js ''b'' @ [LF] @ js ''c''"
  by code_simp

text \<open>
  Claim C5, amended. Whenever \<open>getHeadAndTail\<close> sets no overlap, the components of
  the head, then one line feed unless the tail starts at the first line of the
  string (\<open>tailStart\<close> is 0, and the head is the empty string), then the components
  of the tail, concatenated, are the original string.
\<close>

theorem getHeadAndTail_reconstruct:
  assumes "overlap (getHeadAndTail s) = None"
  shows "leadSpace (head (getHeadAndTail s)) @ trimmed (head (getHeadAndTail s))
           @ rearSpace (head (getHeadAndTail s))
           @ (if tailStart (split s [LF]) = 0 then [] else [LF])
           @ leadSpace (tail (getHeadAndTail s)) @ trimmed (tail (getHeadAndTail s))
           @ rearSpace (tail (getHeadAndTail s)) = s"
proof -
  let ?ls = "split s [LF]"
  let ?k = "tailStart ?ls"
  have ne: "?ls \<noteq> []"
    using splitAcc_nonempty [of "[LF]" "[]" s] by (simp add: split_def)
  from assms have k1: "?k \<noteq> - 1"
    by (auto simp: getHeadAndTail_def Let_def split: if_splits)
  with tailStart_range [of ?ls] ne have k: "0 \<le> ?k" "?k < int (length ?ls)" by auto
  have j: "join ?ls [LF] = s" by (simp add: split_join)
  have h: "untrimmed (head (getHeadAndTail s)) = join (take (nat ?k) ?ls) [LF]"
    using k1 k by (simp add: getHeadAndTail_def Let_def untrimmed_trimSpace slice_zero)
  have t: "untrimmed (tail (getHeadAndTail s)) = join (drop (nat ?k) ?ls) [LF]"
    using k1 k by (simp add: getHeadAndTail_def Let_def untrimmed_trimSpace sliceFrom_nonneg)
  have "untrimmed (head (getHeadAndTail s))
          @ (if ?k = 0 then [] else [LF]) @ untrimmed (tail (getHeadAndTail s)) = s"
  proof (cases "?k = 0")
    case True
    with h t j show ?thesis by simp
  next
    case False
    with k have "0 < nat ?k" "nat ?k < length ?ls" by simp_all
    then have "join (take (nat ?k) ?ls) [LF] @ [LF] @ join (drop (nat ?k) ?ls) [LF] = join ?ls [LF]"
      by (rule join_take_drop)
    with h t j False show ?thesis by simp
  qed
  then show ?thesis by (simp add: untrimmed_def)
qed

theorem getHeadAndTail_reconstruct_witness:
  "overlap (getHeadAndTail (js ''a'' @ [LF] @ js ''b'' @ [LF] @ js ''c'')) = None \<and>
   tailStart (split (js ''a'' @ [LF] @ js ''b'' @ [LF] @ js ''c'') [LF]) = 1 \<and>
   leadSpace (head (getHeadAndTail (js ''a'' @ [LF] @ js ''b'' @ [LF] @ js ''c'')))
     @ trimmed (head (getHeadAndTail (js ''a'' @ [LF] @ js ''b'' @ [LF] @ js ''c'')))
     @ rearSpace (head (getHeadAndTail (js ''a'' @ [LF] @ js ''b'' @ [LF] @ js ''c'')))
     @ [LF]
     @ leadSpace (tail (getHeadAndTail (js ''a'' @ [LF] @ js ''b'' @ [LF] @ js ''c'')))
     @ trimmed (tail (getHeadAndTail (js ''a'' @ [LF] @ js ''b'' @ [LF] @ js ''c'')))
     @ rearSpace (tail (getHeadAndTail (js ''a'' @ [LF] @ js ''b'' @ [LF] @ js ''c'')))
   = js ''a'' @ [LF] @ js ''b'' @ [LF] @ js ''c''"
proof -
  have o: "overlap (getHeadAndTail (js ''a'' @ [LF] @ js ''b'' @ [LF] @ js ''c'')) = None"
    by code_simp
  have k: "tailStart (split (js ''a'' @ [LF] @ js ''b'' @ [LF] @ js ''c'') [LF]) = 1"
    by code_simp
  from getHeadAndTail_reconstruct [OF o] o k show ?thesis by simp
qed

section \<open>Extracting the code block\<close>

text \<open>
  Claim C6. For every raw completion \<open>c\<close>: when \<open>c\<close> contains the opening delimiter
  anywhere, \<open>extractFromCodeBlock c\<close> is the empty string. Otherwise take \<open>part\<close>, the
  portion of \<open>c\<close> strictly before the first occurrence of the closing delimiter, or
  all of \<open>c\<close> when the closing delimiter is absent: the result is \<open>part\<close> with only a
  trailing run \<open>w\<close> of white space removed, so nothing at the front of \<open>part\<close> is
  touched, and the result does not end in white space.
\<close>

theorem extractFromCodeBlock_spec:
  "(sublist OPENING_CODE_TAG c \<longrightarrow> extractFromCodeBlock c = []) \<and>
   (\<not> sublist OPENING_CODE_TAG c \<longrightarrow>
      (\<exists>part w.
         (if sublist CLOSING_CODE_TAG c
          then (\<exists>rest. c = part @ CLOSING_CODE_TAG @ rest) \<and>
               \<not> sublist CLOSING_CODE_TAG (part @ butlast CLOSING_CODE_TAG)
          else part = c) \<and>
         part = extractFromCodeBlock c @ w \<and>
         (\<forall>ch \<in> set w. isWhiteSpace ch) \<and>
         (extractFromCodeBlock c = [] \<or> \<not> isWhiteSpace (last (extractFromCodeBlock c)))))"
proof (intro conjI impI)
  assume "sublist OPENING_CODE_TAG c"
  then show "extractFromCodeBlock c = []" by (simp add: extractFromCodeBlock_eq)
next
  assume no: "\<not> sublist OPENING_CODE_TAG c"
  let ?part = "beforeFirst c CLOSING_CODE_TAG"
  let ?w = "rev (takeWhile isWhiteSpace (rev ?part))"
  have e: "extractFromCodeBlock c = trimEnd ?part"
    using no by (simp add: extractFromCodeBlock_eq)
  have first: "if sublist CLOSING_CODE_TAG c
          then (\<exists>rest. c = ?part @ CLOSING_CODE_TAG @ rest) \<and>
               \<not> sublist CLOSING_CODE_TAG (?part @ butlast CLOSING_CODE_TAG)
          else ?part = c"
  proof (cases "sublist CLOSING_CODE_TAG c")
    case True
    then have i: "0 \<le> indexOf c CLOSING_CODE_TAG"
      using indexOf_absent [of c CLOSING_CODE_TAG] by simp
    from indexOf_found [OF i] obtain r
      where "drop (nat (indexOf c CLOSING_CODE_TAG)) c = CLOSING_CODE_TAG @ r"
      by (auto simp: prefix_def)
    then have "c = ?part @ CLOSING_CODE_TAG @ r"
      using i by (simp add: beforeFirst_def) (metis append_take_drop_id)
    with True beforeFirst_no_earlier [OF tags_nonempty(2) True] show ?thesis by auto
  next
    case False
    then show ?thesis using indexOf_absent [of c CLOSING_CODE_TAG] by (simp add: beforeFirst_def)
  qed
  have "?part = extractFromCodeBlock c @ ?w"
    unfolding e by (rule trimEnd_decomp)
  moreover have "\<forall>ch \<in> set ?w. isWhiteSpace ch" by (rule trimEnd_removed)
  moreover have "extractFromCodeBlock c = [] \<or> \<not> isWhiteSpace (last (extractFromCodeBlock c))"
    unfolding e by (rule trimEnd_last)
  ultimately show "\<exists>part w.
         (if sublist CLOSING_CODE_TAG c
          then (\<exists>rest. c = part @ CLOSING_CODE_TAG @ rest) \<and>
               \<not> sublist CLOSING_CODE_TAG (part @ butlast CLOSING_CODE_TAG)
          else part = c) \<and>
         part = extractFromCodeBlock c @ w \<and>
         (\<forall>ch \<in> set w. isWhiteSpace ch) \<and>
         (extractFromCodeBlock c = [] \<or> \<not> isWhiteSpace (last (extractFromCodeBlock c)))"
    using first by blast
qed

theorem extractFromCodeBlock_spec_witness:
  "\<not> sublist OPENING_CODE_TAG (js ''  foo  </CODE5711> bar'') \<and>
   extractFromCodeBlock (js ''  foo  </CODE5711> bar'') = js ''  foo'' \<and>
   (\<exists>part w.
      (if sublist CLOSING_CODE_TAG (js ''  foo  </CODE5711> bar'')
       then (\<exists>rest. js ''  foo  </CODE5711> bar'' = part @ CLOSING_CODE_TAG @ rest) \<and>
            \<not> sublist CLOSING_CODE_TAG (part @ butlast CLOSING_CODE_TAG)
       else part = js ''  foo  </CODE5711> bar'') \<and>
      part = extractFromCodeBlock (js ''  foo  </CODE5711> bar'') @ w \<and>
      (\<forall>ch \<in> set w. isWhiteSpace ch) \<and>
      (extractFromCodeBlock (js ''  foo  </CODE5711> bar'') = [] \<or>
       \<not> isWhiteSpace (last (extractFromCodeBlock (js ''  foo  </CODE5711> bar'')))))"
proof -
  have no: "\<not> sublist OPENING_CODE_TAG (js ''  foo  </CODE5711> bar'')"
    unfolding includesStr_sublist [symmetric] by code_simp
  have val: "extractFromCodeBlock (js ''  foo  </CODE5711> bar'') = js ''  foo''"
    by code_simp
  from no val extractFromCodeBlock_spec [of "js ''  foo  </CODE5711> bar''"]
  show ?thesis by blast
qed

text \<open>
  Claim C10. For every input string, the result of \<open>extractFromCodeBlock\<close> contains
  neither the opening delimiter \<^verbatim>\<open><CODE5711>\<close> nor the closing delimiter
  \<^verbatim>\<open></CODE5711>\<close> as a substring.
\<close>

theorem extractFromCodeBlock_no_tags:
  "\<not> sublist OPENING_CODE_TAG (extractFromCodeBlock c) \<and>
   \<not> sublist CLOSING_CODE_TAG (extractFromCodeBlock c)"
proof (cases "sublist OPENING_CODE_TAG c")
  case True
  then show ?thesis using tags_nonempty by (simp add: extractFromCodeBlock_eq)
next
  case False
  let ?part = "beforeFirst c CLOSING_CODE_TAG"
  have e: "extractFromCodeBlock c = trimEnd ?part"
    using False by (simp add: extractFromCodeBlock_eq)
  have p1: "prefix (extractFromCodeBlock c) ?part" unfolding e by (rule trimEnd_prefix)
  have p2: "prefix ?part c" by (rule beforeFirst_prefix)
  have a: "\<not> sublist OPENING_CODE_TAG (extractFromCodeBlock c)"
  proof
    assume "sublist OPENING_CODE_TAG (extractFromCodeBlock c)"
    with p1 p2 have "sublist OPENING_CODE_TAG c"
      by (meson prefix_imp_sublist sublist_order.order.trans)
    with False show False by simp
  qed
  have b: "\<not> sublist CLOSING_CODE_TAG (extractFromCodeBlock c)"
  proof
    assume s: "sublist CLOSING_CODE_TAG (extractFromCodeBlock c)"
    with p1 have s1: "sublist CLOSING_CODE_TAG ?part"
      by (meson prefix_imp_sublist sublist_order.order.trans)
    with p2 have s2: "sublist CLOSING_CODE_TAG c"
      by (meson prefix_imp_sublist sublist_order.order.trans)
    from s1 have "sublist CLOSING_CODE_TAG (?part @ butlast CLOSING_CODE_TAG)"
      by (meson sublist_append_rightI sublist_order.order.trans)
    with beforeFirst_no_earlier [OF tags_nonempty(2) s2] show False by simp
  qed
  from a b show ?thesis by simp
qed

section \<open>Trimming the insertion at the suffix\<close>

text \<open>
  Claim C7, as stated, ends with an example: the insertion \<^verbatim>\<open>pnpm-store\<close>, line feed,
  \<^verbatim>\<open>  key: X-Y-Z\<close> against a suffix whose first non-blank line is
  \<^verbatim>\<open>  key: {{...}}-pnpm-store-{{...}}\<close> is cut to \<^verbatim>\<open>pnpm-store\<close>. On these strings the
  window of the second insertion line is \<^verbatim>\<open>  key: X-Y-Z\<close> and the window of the suffix
  line is \<^verbatim>\<open>  key: {{...}}-pn\<close>; the first is not a prefix of the second, no line
  matches, and the insertion is returned whole.
\<close>

theorem trimUntilSuffix_example_counterexample:
  "trimUntilSuffix (js ''pnpm-store'' @ [LF] @ js ''  key: X-Y-Z'')
     (js ''path: $GITHUB_WORKSPACE/vscode/.vscod-etest/'')
     ([LF] @ js ''  key: {{...}}-pnpm-store-{{...}}'' @ [LF])
   = js ''pnpm-store'' @ [LF] @ js ''  key: X-Y-Z'' \<and>
   js ''pnpm-store'' @ [LF] @ js ''  key: X-Y-Z'' \<noteq> js ''pnpm-store''"
  by code_simp

text \<open>
  Claim C7, amended. For all strings insertion, prefix and suffix, \<open>trimUntilSuffix\<close>
  first right-trims the insertion; when the suffix has no non-blank line the
  right-trimmed insertion is returned; otherwise the result is the lines of the
  right-trimmed insertion strictly before the first line (the first line taken with
  the content of the prefix after its last line feed in front of it) whose window,
  its leading white space and the next 15 characters, is not empty and is a prefix
  of the window of the first non-blank line of the suffix (all lines when there is
  no such line). This is \<open>trimUntilSuffix_spec\<close>. The example is the one of the
  comment in the source: the second line of the insertion and the suffix line share
  the window \<^verbatim>\<open>  key: ${{ runner\<close>, and the insertion is cut to \<^verbatim>\<open>pnpm-store\<close>.
\<close>

theorem trimUntilSuffix_refines_spec:
  "trimUntilSuffix insertion pre suf = trimUntilSuffix_spec insertion pre suf \<and>
   trimUntilSuffix
     (js ''pnpm-store'' @ [LF] @
      js ''  key: ${{ runner.os }}-pnpm-${{ steps.pnpm-cache.outputs.STORE_PATH }}'')
     (js ''path: $GITHUB_WORKSPACE/vscode/.vscod-etest/'')
     ([LF] @ js ''  key: ${{ runner.os }}-pnpm-store-${{ hashFiles('pnpm-lock.yaml') }}'' @ [LF])
   = js ''pnpm-store''"
proof
  show "trimUntilSuffix insertion pre suf = trimUntilSuffix_spec insertion pre suf"
    by (rule trimUntilSuffix_refines)
  show "trimUntilSuffix
     (js ''pnpm-store'' @ [LF] @
      js ''  key: ${{ runner.os }}-pnpm-${{ steps.pnpm-cache.outputs.STORE_PATH }}'')
     (js ''path: $GITHUB_WORKSPACE/vscode/.vscod-etest/'')
     ([LF] @ js ''  key: ${{ runner.os }}-pnpm-store-${{ hashFiles('pnpm-lock.yaml') }}'' @ [LF])
   = js ''pnpm-store''"
    by code_simp
qed

section \<open>Fixing a bad start of the completion\<close>

text \<open>
  Claim C8. For every completion that begins with a run \<open>ts\<close> of one or more bad
  tokens (an emoji-presentation character, a zero-width space, \<^verbatim>\<open>"+ "\<close>, \<^verbatim>\<open>"- "\<close> or
  \<^verbatim>\<open>". "\<close>) immediately followed by white space \<open>w\<close>, \<open>fixBadCompletionStart\<close> strips
  the run and all the white space after it; every string that does not begin with
  such a run followed by white space is returned unchanged. The table of the
  property \<^verbatim>\<open>Emoji_Presentation\<close> is any table \<open>ep\<close> in which no white space
  character, no surrogate and none of \<^verbatim>\<open>+\<close>, \<^verbatim>\<open>-\<close>, \<^verbatim>\<open>.\<close> has the property, as in
  Unicode.
\<close>

theorem fixBadCompletionStart_spec:
  assumes "emojiTableOk ep"
  shows "(ts \<noteq> [] \<and> (\<forall>t \<in> set ts. isBadToken ep t) \<and> w \<noteq> [] \<and> list_all isWhiteSpace w
            \<longrightarrow> fixBadCompletionStart ep (concat ts @ w @ r) = dropWhile isWhiteSpace r) \<and>
         ((\<nexists>ts w r. ts \<noteq> [] \<and> (\<forall>t \<in> set ts. isBadToken ep t) \<and> w \<noteq> []
                     \<and> list_all isWhiteSpace w \<and> s = concat ts @ w @ r)
            \<longrightarrow> fixBadCompletionStart ep s = s)"
proof (intro conjI impI)
  assume "ts \<noteq> [] \<and> (\<forall>t \<in> set ts. isBadToken ep t) \<and> w \<noteq> [] \<and> list_all isWhiteSpace w"
  then show "fixBadCompletionStart ep (concat ts @ w @ r) = dropWhile isWhiteSpace r"
    using matchBadStart_run [OF assms, of ts w r] by (simp add: fixBadCompletionStart_def)
next
  assume no: "\<nexists>ts w r. ts \<noteq> [] \<and> (\<forall>t \<in> set ts. isBadToken ep t) \<and> w \<noteq> []
                     \<and> list_all isWhiteSpace w \<and> s = concat ts @ w @ r"
  have "matchBadStart ep s = None"
  proof (cases "matchBadStart ep s")
    case None
    then show ?thesis .
  next
    case (Some x)
    from matchBadStart_sound [OF assms Some] no show ?thesis by blast
  qed
  then show "fixBadCompletionStart ep s = s" by (simp add: fixBadCompletionStart_def)
qed




text \<open>
  The examples of the specification, with a table that holds the heavy plus sign
  U+2795: a plus sign and five spaces in front of \<^verbatim>\<open>1\<close> are stripped, and
  \<^verbatim>\<open>normal code\<close>, which has no decomposition into a run and white space, is
  returned as it is.
\<close>

theorem fixBadCompletionStart_spec_witness:
  "emojiTableOk (\<lambda>cp. cp = 0x2795) \<and>
   isBadToken (\<lambda>cp. cp = 0x2795) [0x2795] \<and>
   fixBadCompletionStart (\<lambda>cp. cp = 0x2795) ([0x2795] @ js ''     1'') = js ''1'' \<and>
   (\<nexists>ts w r. ts \<noteq> [] \<and> (\<forall>t \<in> set ts. isBadToken (\<lambda>cp. cp = 0x2795) t) \<and> w \<noteq> []
       \<and> list_all isWhiteSpace w \<and> js ''normal code'' = concat ts @ w @ r) \<and>
   fixBadCompletionStart (\<lambda>cp. cp = 0x2795) (js ''normal code'') = js ''normal code''"
proof -
  let ?ep = "\<lambda>cp::nat. cp = 0x2795"
  have ok: "emojiTableOk ?ep"
  proof -
    have "\<not> isWhiteSpace c \<and> \<not> isHighSurrogate c \<and> \<not> isLowSurrogate c"
      if "unat c = 0x2795" for c :: jschar
    proof -
      from that have "c = 0x2795" by (simp add: word_unat_eq_iff)
      then show ?thesis by (simp add: isWhiteSpace_def isHighSurrogate_def isLowSurrogate_def)
    qed
    then show ?thesis unfolding emojiTableOk_def by simp
  qed
  have tok: "isBadToken ?ep [0x2795]"
    by (simp add: isBadToken_def isHighSurrogate_def isLowSurrogate_def)
  have ws5: "js ''     '' \<noteq> [] \<and> list_all isWhiteSpace (js ''     '')"
    by (simp add: js_def isWhiteSpace_def)
  have "fixBadCompletionStart ?ep (concat [[0x2795]] @ js ''     '' @ js ''1'')
          = dropWhile isWhiteSpace (js ''1'')"
    using fixBadCompletionStart_spec [OF ok, of "[[0x2795]]" "js ''     ''" "js ''1''"] tok ws5
    by simp
  moreover have "dropWhile isWhiteSpace (js ''1'') = js ''1''"
    by (simp add: js_def isWhiteSpace_def)
  moreover have "concat [[0x2795]] @ js ''     '' @ js ''1'' = [0x2795] @ js ''     1''"
    by (simp add: js_def)
  ultimately have a: "fixBadCompletionStart ?ep ([0x2795] @ js ''     1'') = js ''1''"
    by (simp only:)
  have same: "fixBadCompletionStart ?ep (js ''normal code'') = js ''normal code''"
    by (simp add: fixBadCompletionStart_def matchBadStart.simps(1) matchBadToken_def
        matchCodePoint_def matchLiteral_def js_def isHighSurrogate_def)
  have none: "\<nexists>ts w r. ts \<noteq> [] \<and> (\<forall>t \<in> set ts. isBadToken ?ep t) \<and> w \<noteq> []
       \<and> list_all isWhiteSpace w \<and> js ''normal code'' = concat ts @ w @ r"
  proof
    assume "\<exists>ts w r. ts \<noteq> [] \<and> (\<forall>t \<in> set ts. isBadToken ?ep t) \<and> w \<noteq> []
       \<and> list_all isWhiteSpace w \<and> js ''normal code'' = concat ts @ w @ r"
    then obtain ts w r where d: "ts \<noteq> [] \<and> (\<forall>t \<in> set ts. isBadToken ?ep t) \<and> w \<noteq> []
       \<and> list_all isWhiteSpace w" and e: "js ''normal code'' = concat ts @ w @ r"
      by blast
    from fixBadCompletionStart_spec [OF ok, of ts w r] d
    have "fixBadCompletionStart ?ep (concat ts @ w @ r) = dropWhile isWhiteSpace r" by blast
    with same have "concat ts @ w @ r = dropWhile isWhiteSpace r" by (simp only: e)
    then have "length (concat ts @ w @ r) = length (dropWhile isWhiteSpace r)" by simp
    moreover have "length (dropWhile isWhiteSpace r) \<le> length r" by (rule length_dropWhile_le)
    moreover from d have "0 < length w" by simp
    ultimately show False by simp
  qed
  from ok tok a none same show ?thesis by (intro conjI)
qed

section \<open>Ranking the candidates\<close>

text \<open>
  Claim C9. For every list of surviving candidates, the ranked list is sorted by
  descending number of lines, and the candidates with a given number of lines stand
  in it in their original request order; the same holds of the list that is
  returned after deduplication, where each text is kept at its first occurrence.
  In particular three distinct candidates of 1, 5 and 1 lines are returned as the
  5-line candidate followed by the two 1-line candidates in their original order.
\<close>

theorem finalCandidates_ranked:
  "sorted_wrt (\<lambda>a b. lineCount b \<le> lineCount a) (rankCompletions cs) \<and>
   (\<forall>n. filter (\<lambda>c. lineCount c = n) (rankCompletions cs) = filter (\<lambda>c. lineCount c = n) cs) \<and>
   sorted_wrt (\<lambda>a b. lineCount b \<le> lineCount a) (finalCandidates cs) \<and>
   (\<forall>n. filter (\<lambda>c. lineCount c = n) (finalCandidates cs)
          = dedupe (filter (\<lambda>c. lineCount c = n) cs)) \<and>
   finalCandidates
     [js ''one()'',
      js ''a()'' @ [LF] @ js ''b()'' @ [LF] @ js ''c()'' @ [LF] @ js ''d()'' @ [LF] @ js ''e()'',
      js ''two()'']
   = [js ''a()'' @ [LF] @ js ''b()'' @ [LF] @ js ''c()'' @ [LF] @ js ''d()'' @ [LF] @ js ''e()'',
      js ''one()'', js ''two()'']"
proof (intro conjI allI)
  show "sorted_wrt (\<lambda>a b. lineCount b \<le> lineCount a) (rankCompletions cs)"
    by (rule rankCompletions_sorted)
  show "filter (\<lambda>c. lineCount c = n) (rankCompletions cs) = filter (\<lambda>c. lineCount c = n) cs" for n
    by (rule rankCompletions_stable)
  show "sorted_wrt (\<lambda>a b. lineCount b \<le> lineCount a) (finalCandidates cs)"
    unfolding finalCandidates_def by (rule sorted_wrt_dedupe) (rule rankCompletions_sorted)
  show "filter (\<lambda>c. lineCount c = n) (finalCandidates cs)
          = dedupe (filter (\<lambda>c. lineCount c = n) cs)" for n
    by (simp add: finalCandidates_def filter_dedupe rankCompletions_stable)
  show "finalCandidates
     [js ''one()'',
      js ''a()'' @ [LF] @ js ''b()'' @ [LF] @ js ''c()'' @ [LF] @ js ''d()'' @ [LF] @ js ''e()'',
      js ''two()'']
   = [js ''a()'' @ [LF] @ js ''b()'' @ [LF] @ js ''c()'' @ [LF] @ js ''d()'' @ [LF] @ js ''e()'',
      js ''one()'', js ''two()'']"
    by code_simp
qed

section \<open>Multi-line truncation\<close>




section \<open>Synthesis from the cache\<close>



section \<open>Failing requests\<close>



end
